theory Spec2Isabelle
  imports Complex_Main "HOL-Library.Sublist" "HOL-Library.Multiset"
begin

section \<open>Strings of the runtime\<close>

text \<open>
  A JavaScript string is a sequence of UTF-16 code units. The code only compares code
  units for equality, so a code unit is a natural number here. Literals of the source
  that are plain ASCII are written with \<open>js\<close>; the Turkish letters of the source
  (all precomposed, one code unit each) are named below.
\<close>

type_synonym jsstring = "nat list"

definition js :: "string \<Rightarrow> jsstring" where
  "js s = map of_char s"

abbreviation dotless_i :: nat where "dotless_i \<equiv> 305"   \<comment> \<open>U+0131\<close>
abbreviation s_cedilla :: nat where "s_cedilla \<equiv> 351"   \<comment> \<open>U+015F\<close>
abbreviation c_cedilla :: nat where "c_cedilla \<equiv> 231"   \<comment> \<open>U+00E7\<close>
abbreviation g_breve :: nat where "g_breve \<equiv> 287"       \<comment> \<open>U+011F\<close>
abbreviation o_umlaut :: nat where "o_umlaut \<equiv> 246"     \<comment> \<open>U+00F6\<close>
abbreviation u_umlaut :: nat where "u_umlaut \<equiv> 252"     \<comment> \<open>U+00FC\<close>
abbreviation cap_o_umlaut :: nat where "cap_o_umlaut \<equiv> 214"   \<comment> \<open>U+00D6\<close>
abbreviation cap_c_cedilla :: nat where "cap_c_cedilla \<equiv> 199" \<comment> \<open>U+00C7\<close>

text \<open>
  \<open>String.prototype.includes\<close>: does the search string occur in the text as a
  contiguous run of code units. \<open>startsAt text kw\<close> compares \<open>kw\<close> with the
  beginning of \<open>text\<close>; \<open>str_includes\<close> tries every position.
\<close>

fun startsAt :: "jsstring \<Rightarrow> jsstring \<Rightarrow> bool" where
  "startsAt text [] = True"
| "startsAt [] (k # ks) = False"
| "startsAt (c # cs) (k # ks) = (c = k \<and> startsAt cs ks)"

fun str_includes :: "jsstring \<Rightarrow> jsstring \<Rightarrow> bool" where
  "str_includes [] kw = (kw = [])"
| "str_includes (c # cs) kw = (startsAt (c # cs) kw \<or> str_includes cs kw)"

text \<open>
  \<open>String.prototype.toLowerCase\<close> belongs to the runtime, not to the repository:
  the classifier takes it as the parameter \<open>lc\<close>, and every theorem below holds for
  each function put there. \<open>lowerBasicLatin\<close> is what the runtime computes on a
  string whose only cased letters outside a-z are A-Z; it instantiates \<open>lc\<close> at
  concrete texts.
\<close>

definition lowerBasicLatin :: "jsstring \<Rightarrow> jsstring" where
  "lowerBasicLatin s = map (\<lambda>c. if 65 \<le> c \<and> c \<le> 90 then c + 32 else c) s"

section \<open>The classifier: \<open>interpretPartFromText\<close> of \<open>utils/matchUtils.js\<close>\<close>

text \<open>
  Numbers of the source are IEEE doubles; they are the real numbers here, so that
  \<open>0.95\<close>, \<open>0.8\<close> and the products below are the exact decimal values.
\<close>

record part =
  name :: jsstring
  ident :: jsstring          \<comment> \<open>the field \<open>id\<close>\<close>
  confidence :: real

text \<open>The returned object \<open>{...bestPart, confidence, category, matchedKeywords}\<close>.\<close>

record suggestion = part +
  category :: jsstring
  matchedKeywords :: nat

record mapping =
  kwds :: "jsstring list"     \<comment> \<open>the field \<open>keywords\<close>\<close>
  parts :: "part list"

text \<open>
  \<open>partMappings\<close> is an object literal with string keys; \<open>Object.entries\<close>
  lists them in the order they are written, so it is an association list.
\<close>

definition partMappings :: "(jsstring \<times> mapping) list" where
  "partMappings = [
    (js ''fren'', \<lparr>
      kwds = [js ''fren'', js ''balata'', js ''disk'', js ''durmuyor'', js ''tutmuyor'',
        js ''g'' @ [dotless_i] @ js ''c'' @ [dotless_i] @ js ''rd'' @ [dotless_i] @ js ''yor'',
        js ''ses'', js ''titre'' @ [s_cedilla] @ js ''im'', js ''pedal''],
      parts = [
        \<lparr>name = js ''Fren Balatas'' @ [dotless_i] @ js '' '' @ [cap_o_umlaut] @ js ''n'',
         ident = js ''part-fren-001'', confidence = 0.9\<rparr>,
        \<lparr>name = js ''Fren Balatas'' @ [dotless_i] @ js '' Arka'',
         ident = js ''part-fren-002'', confidence = 0.85\<rparr>,
        \<lparr>name = js ''Fren Diski '' @ [cap_o_umlaut] @ js ''n'',
         ident = js ''part-fren-003'', confidence = 0.8\<rparr>,
        \<lparr>name = js ''ABS Sens'' @ [o_umlaut] @ js ''r'' @ [u_umlaut],
         ident = js ''part-fren-010'', confidence = 0.7\<rparr>]\<rparr>),
    (js ''motor'', \<lparr>
      kwds = [js ''motor'',
        [c_cedilla] @ js ''al'' @ [dotless_i, s_cedilla] @ js ''m'' @ [dotless_i] @ js ''yor'',
        js ''titre'' @ [s_cedilla] @ js ''im'', js ''ses'', js ''duman'',
        js ''ya'' @ [g_breve], js ''so'' @ [g_breve] @ js ''utma'',
        [dotless_i] @ js ''s'' @ [dotless_i] @ js ''nma'',
        js ''g'' @ [u_umlaut, c_cedilla], js ''performans''],
      parts = [
        \<lparr>name = js ''Motor Ya'' @ [g_breve, dotless_i],
         ident = js ''part-motor-037'', confidence = 0.8\<rparr>,
        \<lparr>name = js ''Hava Filtresi'', ident = js ''part-motor-016'', confidence = 0.75\<rparr>,
        \<lparr>name = js ''Buji'', ident = js ''part-motor-020'', confidence = 0.7\<rparr>,
        \<lparr>name = js ''Ya'' @ [g_breve] @ js '' Filtresi'',
         ident = js ''part-motor-017'', confidence = 0.7\<rparr>]\<rparr>),
    (js ''elektrik'', \<lparr>
      kwds = [js ''elektrik'', js ''ak'' @ [u_umlaut], [s_cedilla] @ js ''arj'',
        [c_cedilla] @ js ''al'' @ [dotless_i, s_cedilla] @ js ''m'' @ [dotless_i] @ js ''yor'',
        [dotless_i, s_cedilla, dotless_i] @ js ''k'', js ''far'', js ''sinyal'',
        js ''klakson'', js ''cam''],
      parts = [
        \<lparr>name = js ''Ak'' @ [u_umlaut], ident = js ''part-elektrik-001'', confidence = 0.9\<rparr>,
        \<lparr>name = js ''Alternat'' @ [o_umlaut] @ js ''r'',
         ident = js ''part-elektrik-002'', confidence = 0.8\<rparr>,
        \<lparr>name = js ''Far Ampul'' @ [u_umlaut],
         ident = js ''part-elektrik-010'', confidence = 0.7\<rparr>,
        \<lparr>name = js ''Sigorta Kutusu'', ident = js ''part-elektrik-006'', confidence = 0.6\<rparr>]\<rparr>),
    (js ''suspansiyon'', \<lparr>
      kwds = [js ''amortis'' @ [o_umlaut] @ js ''r'', js ''yay'',
        js ''sal'' @ [dotless_i] @ js ''ncak'', js ''direksiyon'',
        js ''titre'' @ [s_cedilla] @ js ''im'',
        js ''sars'' @ [dotless_i] @ js ''nt'' @ [dotless_i], js ''ses'',
        [c_cedilla] @ js ''ukur''],
      parts = [
        \<lparr>name = js ''Amortis'' @ [o_umlaut] @ js ''r '' @ [cap_o_umlaut] @ js ''n Sol'',
         ident = js ''part-suspansiyon-001'', confidence = 0.85\<rparr>,
        \<lparr>name = js ''Amortis'' @ [o_umlaut] @ js ''r '' @ [cap_o_umlaut] @ js ''n Sa'' @ [g_breve],
         ident = js ''part-suspansiyon-002'', confidence = 0.85\<rparr>,
        \<lparr>name = js ''Stabilizat'' @ [o_umlaut] @ js ''r '' @ [cap_c_cedilla] @ js ''ubu''
           @ [g_breve] @ js ''u'',
         ident = js ''part-suspansiyon-023'', confidence = 0.7\<rparr>,
        \<lparr>name = js ''Rotil'', ident = js ''part-suspansiyon-013'', confidence = 0.65\<rparr>]\<rparr>),
    (js ''klima'', \<lparr>
      kwds = [js ''klima'', js ''so'' @ [g_breve] @ js ''utmuyor'',
        [dotless_i] @ js ''s'' @ [dotless_i] @ js ''tm'' @ [dotless_i] @ js ''yor'',
        js ''hava'', js ''fan'', js ''filtre'', js ''gaz'',
        js ''kompres'' @ [o_umlaut] @ js ''r''],
      parts = [
        \<lparr>name = js ''Klima Filtresi'', ident = js ''part-klima-004'', confidence = 0.8\<rparr>,
        \<lparr>name = js ''Klima Kompres'' @ [o_umlaut] @ js ''r'' @ [u_umlaut],
         ident = js ''part-klima-001'', confidence = 0.75\<rparr>,
        \<lparr>name = js ''Klima Gaz'' @ [dotless_i] @ js '' R134a'',
         ident = js ''part-klima-005'', confidence = 0.7\<rparr>,
        \<lparr>name = js ''Kabin Filtresi'', ident = js ''part-klima-022'', confidence = 0.65\<rparr>]\<rparr>)]"

text \<open>
  The \<open>forEach\<close> over the keywords of one category: the counter \<open>keywordMatches\<close>
  goes up by one for each keyword the text includes. (\<open>categoryScore\<close> is counted
  beside it and never read.)
\<close>

definition countKeywordMatches :: "jsstring \<Rightarrow> jsstring list \<Rightarrow> nat" where
  "countKeywordMatches text kws =
     fold (\<lambda>keyword keywordMatches.
             if str_includes text keyword then keywordMatches + 1 else keywordMatches) kws 0"

text \<open>\<open>Math.min(0.95, (keywordMatches / mapping.keywords.length) * 0.8 + 0.2)\<close>\<close>

definition densityConfidence :: "nat \<Rightarrow> nat \<Rightarrow> real" where
  "densityConfidence keywordMatches len =
     min 0.95 ((real keywordMatches / real len) * 0.8 + 0.2)"

text \<open>The two variables the loop over the categories assigns.\<close>

record best =
  bestMatch :: "suggestion option"      \<comment> \<open>\<open>None\<close> is \<open>null\<close>\<close>
  highestConfidence :: real

text \<open>
  Reading \<open>mapping.parts[0]\<close> of an empty array gives \<open>undefined\<close>, and
  \<open>bestPart.confidence\<close> then throws a TypeError.
\<close>

datatype js_error = TypeError

text \<open>The body of the loop for one entry of \<open>partMappings\<close>.\<close>

definition categoryStep :: "jsstring \<Rightarrow> jsstring \<times> mapping \<Rightarrow> best \<Rightarrow> js_error + best" where
  "categoryStep text entry st =
    (let keywordMatches = countKeywordMatches text (kwds (snd entry)) in
     if keywordMatches > 0 then
       (let confidence = densityConfidence keywordMatches (length (kwds (snd entry))) in
        case parts (snd entry) of
          [] \<Rightarrow> Inl TypeError
        | bestPart # _ \<Rightarrow>
           (let adjustedConfidence = part.confidence bestPart * confidence in
            if adjustedConfidence > highestConfidence st then
              Inr \<lparr>bestMatch = Some \<lparr>name = name bestPart, ident = ident bestPart,
                     confidence = adjustedConfidence, category = fst entry,
                     matchedKeywords = keywordMatches\<rparr>,
                   highestConfidence = adjustedConfidence\<rparr>
            else Inr st))
     else Inr st)"

fun categoryLoop :: "jsstring \<Rightarrow> (jsstring \<times> mapping) list \<Rightarrow> best \<Rightarrow> js_error + best" where
  "categoryLoop text [] st = Inr st"
| "categoryLoop text (entry # rest) st =
     (case categoryStep text entry st of
        Inl e \<Rightarrow> Inl e
      | Inr st' \<Rightarrow> categoryLoop text rest st')"

definition fallback :: suggestion where
  "fallback = \<lparr>name = js ''Genel Kontrol Gerekli'', ident = js ''part-general-001'',
     confidence = 0.3, category = js ''general'', matchedKeywords = 0\<rparr>"

definition interpretPartFromText ::
  "(jsstring \<Rightarrow> jsstring) \<Rightarrow> jsstring \<Rightarrow> jsstring \<Rightarrow> js_error + suggestion" where
  "interpretPartFromText lc description vin =
    (let text = lc description in
     case categoryLoop text partMappings \<lparr>bestMatch = None, highestConfidence = 0\<rparr> of
       Inl e \<Rightarrow> Inl e
     | Inr st \<Rightarrow>
        (case bestMatch st of
           None \<Rightarrow> Inr fallback
         | Some b \<Rightarrow> Inr b))"

text \<open>
  What one category contributes on its own: the object the loop body would store for
  it, or nothing when no keyword of the category occurs (or there is no first part).
  It is the body of \<open>categoryStep\<close> without the comparison; the theorems about the
  order of the categories are stated with it.
\<close>

definition candidate :: "jsstring \<Rightarrow> jsstring \<times> mapping \<Rightarrow> suggestion option" where
  "candidate text entry =
    (let keywordMatches = countKeywordMatches text (kwds (snd entry)) in
     if keywordMatches > 0 then
       (case parts (snd entry) of
          [] \<Rightarrow> None
        | bestPart # _ \<Rightarrow>
            Some \<lparr>name = name bestPart, ident = ident bestPart,
              confidence = part.confidence bestPart *
                densityConfidence keywordMatches (length (kwds (snd entry))),
              category = fst entry, matchedKeywords = keywordMatches\<rparr>)
     else None)"

section \<open>The offer synthesizer: \<open>generateSellersForPart\<close> of \<open>utils/matchUtils.js\<close>\<close>

record seller =
  s_name :: jsstring
  s_location :: jsstring
  s_rating :: real
  s_phone :: jsstring
  s_email :: jsstring

record offer =
  o_name :: jsstring
  o_location :: jsstring
  price :: int
  stock :: int
  o_rating :: real
  o_phone :: jsstring
  o_email :: jsstring

text \<open>
  The results of the calls of \<open>Math.random\<close> in one run, each a number of [0, 1):
  the draw behind \<open>numSellers\<close>, and for the \<open>i\<close>-th round of the loop the draw
  behind the price and the draw behind the stock. The copy of the pool is sorted with
  the comparator \<open>() => 0.5 - Math.random()\<close>; which permutation comes out is up to
  the engine and its draws, so the outcome is given as \<open>order\<close>: the position in the
  pool of each element of the sorted copy. That a draw lies in [0, 1) and that
  \<open>order\<close> is a permutation of the positions (the engine's sort rearranges the array
  and neither drops nor repeats an element) are hypotheses of the theorems that need
  them.
\<close>

record draws =
  countDraw :: real
  order :: "nat list"
  priceDraw :: "nat \<Rightarrow> real"
  stockDraw :: "nat \<Rightarrow> real"

definition applyOrder :: "nat list \<Rightarrow> 'a list \<Rightarrow> 'a list" where
  "applyOrder ord xs = map (\<lambda>i. xs ! i) ord"

text \<open>\<open>Math.round\<close> rounds to the nearest integer, a half upwards.\<close>

definition Math_round :: "real \<Rightarrow> int" where
  "Math_round x = \<lfloor>x + 1 / 2\<rfloor>"

text \<open>The chain of \<open>if\<close> / \<open>else if\<close> that sets \<open>basePrice\<close>.\<close>

definition basePrice :: "jsstring \<Rightarrow> int" where
  "basePrice partId =
    (if str_includes partId (js ''motor'') then 800
     else if str_includes partId (js ''fren'') then 300
     else if str_includes partId (js ''elektrik'') then 200
     else if str_includes partId (js ''suspansiyon'') then 400
     else if str_includes partId (js ''klima'') then 250
     else if str_includes partId (js ''govde'') then 600
     else if str_includes partId (js ''ic-aksam'') then 150
     else 100)"

text \<open>The object pushed in round \<open>i\<close> of the loop, for the seller read there.\<close>

definition offerFor :: "jsstring \<Rightarrow> draws \<Rightarrow> nat \<Rightarrow> seller \<Rightarrow> offer" where
  "offerFor partId rnd i seller =
    (let priceVariation = (priceDraw rnd i - 0.5) * 0.4;
         price = Math_round (real_of_int (basePrice partId) * (1 + priceVariation));
         stock = \<lfloor>stockDraw rnd i * 25\<rfloor> + 1
     in \<lparr>o_name = s_name seller, o_location = s_location seller, price = price,
         stock = stock, o_rating = s_rating seller, o_phone = s_phone seller,
         o_email = s_email seller\<rparr>)"

text \<open>
  \<open>for (let i = 0; i < Math.min(numSellers, shuffledSellers.length); i++)\<close>, with
  \<open>selectedSellers\<close> as the accumulator.
\<close>

function sellersLoop ::
  "jsstring \<Rightarrow> draws \<Rightarrow> int \<Rightarrow> seller list \<Rightarrow> nat \<Rightarrow> offer list \<Rightarrow> offer list" where
  "sellersLoop partId rnd numSellers shuffledSellers i selectedSellers =
    (if int i < min numSellers (int (length shuffledSellers))
     then sellersLoop partId rnd numSellers shuffledSellers (Suc i)
            (selectedSellers @ [offerFor partId rnd i (shuffledSellers ! i)])
     else selectedSellers)"
  by pat_completeness auto
termination
  by (relation "measure (\<lambda>(partId, rnd, numSellers, shuffledSellers, i, selectedSellers).
        length shuffledSellers - i)") auto

text \<open>
  The final \<open>sort((a, b) => a.price - b.price)\<close> has a consistent comparator, and
  \<open>Array.prototype.sort\<close> is stable: the result is the stable sort by price.
\<close>

definition generateSellersForPart :: "jsstring \<Rightarrow> seller list \<Rightarrow> draws \<Rightarrow> offer list" where
  "generateSellersForPart partId globalSellers rnd =
    (let numSellers = \<lfloor>countDraw rnd * 4\<rfloor> + 2;
         shuffledSellers = applyOrder (order rnd) globalSellers
     in sort_key price (sellersLoop partId rnd numSellers shuffledSellers 0 []))"

text \<open>
  The price rule as the specification words it: a list of rules in priority order, the
  first whose key occurs in the part identifier gives the price, 100 when none does.
\<close>

definition priceRules :: "(jsstring \<times> int) list" where
  "priceRules = [(js ''motor'', 800), (js ''fren'', 300), (js ''elektrik'', 200),
     (js ''suspansiyon'', 400), (js ''klima'', 250), (js ''govde'', 600),
     (js ''ic-aksam'', 150)]"

definition firstMatchingPrice :: "jsstring \<Rightarrow> int" where
  "firstMatchingPrice partId =
    (case find (\<lambda>rule. str_includes partId (fst rule)) priceRules of
       None \<Rightarrow> 100
     | Some rule \<Rightarrow> snd rule)"

section \<open>The caller: \<open>getSellersForPart\<close> of \<open>controllers/sellerController.js\<close>\<close>

definition deliveryOptions :: "jsstring list" where
  "deliveryOptions = [js ''1-2 g'' @ [u_umlaut] @ js ''n'', js ''2-3 g'' @ [u_umlaut] @ js ''n'',
     js ''3-5 g'' @ [u_umlaut] @ js ''n'', js ''1 hafta'',
     js ''Ayn'' @ [dotless_i] @ js '' g'' @ [u_umlaut] @ js ''n'']"

definition deliveryWeights :: "real list" where
  "deliveryWeights = [0.3, 0.3, 0.25, 0.1, 0.05]"

text \<open>
  The loop of \<open>generateDeliveryTime\<close> from index \<open>i\<close> on, with the running sum
  \<open>cumulative\<close>; \<open>None\<close> when it ends without a \<open>return\<close>.
\<close>

function deliveryWalk :: "real \<Rightarrow> real \<Rightarrow> nat \<Rightarrow> jsstring option" where
  "deliveryWalk random cumulative i =
    (if i < length deliveryOptions then
       (let cumulative = cumulative + deliveryWeights ! i in
        if random \<le> cumulative then Some (deliveryOptions ! i)
        else deliveryWalk random cumulative (Suc i))
     else None)"
  by pat_completeness auto
termination
  by (relation "measure (\<lambda>(random, cumulative, i). length deliveryOptions - i)") auto

definition generateDeliveryTime :: "real \<Rightarrow> jsstring" where
  "generateDeliveryTime random =
    (case deliveryWalk random 0 0 of
       Some opt \<Rightarrow> opt
     | None \<Rightarrow> deliveryOptions ! 0)"

definition generateWarranty :: "jsstring \<Rightarrow> jsstring" where
  "generateWarranty partId =
    (if str_includes partId (js ''motor'') then js ''2 y'' @ [dotless_i] @ js ''l garanti''
     else if str_includes partId (js ''fren'') then js ''1 y'' @ [dotless_i] @ js ''l garanti''
     else if str_includes partId (js ''elektrik'') then js ''6 ay garanti''
     else if str_includes partId (js ''suspansiyon'') then js ''1 y'' @ [dotless_i] @ js ''l garanti''
     else if str_includes partId (js ''klima'') then js ''1 y'' @ [dotless_i] @ js ''l garanti''
     else if str_includes partId (js ''govde'') then js ''6 ay garanti''
     else js ''3 ay garanti'')"

text \<open>
  \<open>mockSellers\<close> is the object parsed from the data file. Its own keys are part
  identifiers, each with the list of offers listed for that part, and
  \<open>global_sellers\<close> with the pool of seller profiles. A profile has no price.
\<close>

record mockData =
  listed :: "jsstring \<Rightarrow> offer list option"
  global_sellers :: "seller list option"

text \<open>
  What \<open>mockSellers[partId]\<close> can be: nothing, a list of offers, the pool, or a
  member inherited from the runtime's \<open>Object.prototype\<close>. Of an inherited member only
  its \<open>length\<close> matters: a function has one, the prototype object under
  \<open>__proto__\<close> has none.
\<close>

datatype jsvalue =
    Undefined
  | OfferArray "offer list"
  | SellerArray "seller list"
  | Inherited "nat option"

definition objectPrototype :: "(jsstring \<times> nat option) list" where
  "objectPrototype =
    [(js ''constructor'', Some 1), (js ''__defineGetter__'', Some 2),
     (js ''__defineSetter__'', Some 2), (js ''hasOwnProperty'', Some 1),
     (js ''__lookupGetter__'', Some 1), (js ''__lookupSetter__'', Some 1),
     (js ''isPrototypeOf'', Some 1), (js ''propertyIsEnumerable'', Some 1),
     (js ''toString'', Some 0), (js ''valueOf'', Some 0), (js ''__proto__'', None),
     (js ''toLocaleString'', Some 0)]"

text \<open>The property read \<open>mockSellers[key]\<close>: own keys first, then the prototype.\<close>

definition getProperty :: "mockData \<Rightarrow> jsstring \<Rightarrow> jsvalue" where
  "getProperty m key =
    (case (if key = js ''global_sellers'' then map_option SellerArray (global_sellers m)
           else map_option OfferArray (listed m key)) of
       Some v \<Rightarrow> v
     | None \<Rightarrow>
        (case map_of objectPrototype key of
           Some len \<Rightarrow> Inherited len
         | None \<Rightarrow> Undefined))"

text \<open>\<open>!sellers\<close> holds of \<open>undefined\<close> only: arrays, functions and objects are truthy.\<close>

definition falsy :: "jsvalue \<Rightarrow> bool" where
  "falsy v = (v = Undefined)"

text \<open>\<open>sellers.length\<close>, where \<open>None\<close> is \<open>undefined\<close>.\<close>

definition lengthOf :: "jsvalue \<Rightarrow> nat option" where
  "lengthOf v =
    (case v of
       Undefined \<Rightarrow> None
     | OfferArray xs \<Rightarrow> Some (length xs)
     | SellerArray ps \<Rightarrow> Some (length ps)
     | Inherited len \<Rightarrow> len)"

text \<open>
  What the handler needs beside the data: \<open>deliveryDraw k\<close> is the draw of
  \<open>Math.random\<close> and \<open>now k\<close> the time stamp for the \<open>k\<close>-th element of the
  \<open>map\<close>.
\<close>

record env =
  mockSellers :: mockData
  deliveryDraw :: "nat \<Rightarrow> real"
  now :: "nat \<Rightarrow> jsstring"

text \<open>
  The object \<open>{...seller, deliveryTime, warranty, paymentMethods, lastUpdated}\<close>: the
  element it spreads, an offer or a profile, and the four fields added.
\<close>

record metadata =
  deliveryTime :: jsstring
  warranty :: jsstring
  paymentMethods :: "jsstring list"
  lastUpdated :: jsstring

datatype served = ServedOffer offer metadata | ServedProfile seller metadata

definition metadataFor :: "env \<Rightarrow> jsstring \<Rightarrow> nat \<Rightarrow> metadata" where
  "metadataFor e partId k =
     \<lparr>deliveryTime = generateDeliveryTime (deliveryDraw e k),
      warranty = generateWarranty partId,
      paymentMethods = [js ''Nakit'', js ''Kredi Kart'' @ [dotless_i], js ''Havale''],
      lastUpdated = now e k\<rparr>"

text \<open>\<open>a.price\<close>, where \<open>None\<close> is \<open>undefined\<close>.\<close>

definition servedPrice :: "served \<Rightarrow> int option" where
  "servedPrice a = (case a of ServedOffer x m \<Rightarrow> Some (price x) | ServedProfile x m \<Rightarrow> None)"

text \<open>
  The comparator \<open>(a, b) => a.price - b.price\<close> as the sort reads it: \<open>a\<close> goes
  after \<open>b\<close> when the difference is a positive number. With an undefined price the
  difference is NaN, which the sort takes as 0. \<open>sortByPrice\<close> is the stable sort
  under that comparator, \<open>Array.prototype.sort\<close> for a consistent comparator; the
  handler sorts lists of offers only or of profiles only, and on both the comparator
  is consistent.
\<close>

definition priceAfter :: "served \<Rightarrow> served \<Rightarrow> bool" where
  "priceAfter a b =
    (case (servedPrice a, servedPrice b) of
       (Some p, Some q) \<Rightarrow> p - q > 0
     | _ \<Rightarrow> False)"

fun insertByPrice :: "served \<Rightarrow> served list \<Rightarrow> served list" where
  "insertByPrice a [] = [a]"
| "insertByPrice a (b # bs) = (if priceAfter a b then b # insertByPrice a bs else a # b # bs)"

definition sortByPrice :: "served list \<Rightarrow> served list" where
  "sortByPrice xs = foldr insertByPrice xs []"

text \<open>
  The answers of the handler. A TypeError in the body is caught and answered with
  status 500. Of the body of a success, \<open>sellers\<close> and \<open>count\<close> are kept; the delay
  at the start and the rest of the envelope are left out.
\<close>

datatype response =
    Status400                        \<comment> \<open>Missing part ID\<close>
  | Status404                        \<comment> \<open>No sellers found\<close>
  | Status500                        \<comment> \<open>Internal server error\<close>
  | Success "served list" nat        \<comment> \<open>\<open>sellers\<close> and \<open>count\<close> of the body\<close>

text \<open>
  \<open>sellers.map\<close> is a call of \<open>undefined\<close> when \<open>sellers\<close> is an inherited member:
  the TypeError branch.
\<close>

definition getSellersForPart :: "env \<Rightarrow> jsstring \<Rightarrow> draws \<Rightarrow> response" where
  "getSellersForPart e partId rnd =
    (if partId = [] then Status400
     else
       (let found = getProperty (mockSellers e) partId;
            sellers =
              (case global_sellers (mockSellers e) of
                 Some pool \<Rightarrow>
                   if falsy found then OfferArray (generateSellersForPart partId pool rnd)
                   else found
               | None \<Rightarrow> found)
        in if falsy sellers \<or> lengthOf sellers = Some 0 then Status404
           else
             (case sellers of
                OfferArray xs \<Rightarrow>
                  Success
                    (sortByPrice
                      (map (\<lambda>(k, seller). ServedOffer seller (metadataFor e partId k))
                        (enumerate 0 xs)))
                    (length xs)
              | SellerArray ps \<Rightarrow>
                  Success
                    (sortByPrice
                      (map (\<lambda>(k, seller). ServedProfile seller (metadataFor e partId k))
                        (enumerate 0 ps)))
                    (length ps)
              | _ \<Rightarrow> Status500)))"

text \<open>
  The order the claim about the handler speaks of, on the prices of the list sent:
  each price is at most the next, with \<open><=\<close> of the runtime, which is false when a
  side is undefined.
\<close>

fun nonDecreasing :: "int option list \<Rightarrow> bool" where
  "nonDecreasing (Some p # Some q # rest) = (p \<le> q \<and> nonDecreasing (Some q # rest))"
| "nonDecreasing (a # b # rest) = False"
| "nonDecreasing rest = True"

section \<open>The synthesizer on a store\<close>

text \<open>
  Arrays and objects of the runtime are shared and mutable. To say what a call leaves
  untouched, the same function is written once more over a store: a list of cells, a
  reference being the index of a cell. An array holds references to its elements.
  \<open>alloc\<close> puts a new cell at the end; an assignment through a reference is the list
  update at that index.
\<close>

type_synonym ref = nat

datatype obj = Arr "ref list" | SellerObj seller | OfferObj offer

type_synonym store = "obj list"

definition alloc :: "store \<Rightarrow> obj \<Rightarrow> ref \<times> store" where
  "alloc h v = (length h, h @ [v])"

definition readObj :: "store \<Rightarrow> ref \<Rightarrow> obj option" where
  "readObj h r = (if r < length h then Some (h ! r) else None)"

text \<open>\<open>a.price\<close> for an element of the result array (every element is an offer).\<close>

definition priceAt :: "store \<Rightarrow> ref \<Rightarrow> int" where
  "priceAt h r = (case readObj h r of Some (OfferObj x) \<Rightarrow> price x | _ \<Rightarrow> 0)"

text \<open>
  The loop: both arrays are read through their references in each round.
  Reading a field of something that is not a seller object is the TypeError branch.
\<close>

function sellersLoopH ::
  "jsstring \<Rightarrow> draws \<Rightarrow> int \<Rightarrow> ref \<Rightarrow> ref \<Rightarrow> nat \<Rightarrow> store \<Rightarrow> js_error + store" where
  "sellersLoopH partId rnd numSellers shuffledSellers selectedSellers i h =
    (case (readObj h shuffledSellers, readObj h selectedSellers) of
       (Some (Arr sh), Some (Arr sel)) \<Rightarrow>
         if int i < min numSellers (int (length sh)) then
           (case readObj h (sh ! i) of
              Some (SellerObj seller) \<Rightarrow>
                (let (r, h1) = alloc h (OfferObj (offerFor partId rnd i seller));
                     h2 = h1[selectedSellers := Arr (sel @ [r])]
                 in sellersLoopH partId rnd numSellers shuffledSellers selectedSellers (Suc i) h2)
            | _ \<Rightarrow> Inl TypeError)
         else Inr h
     | _ \<Rightarrow> Inl TypeError)"
  by pat_completeness auto
termination
  by (relation "measure (\<lambda>(partId, rnd, numSellers, shuffledSellers, selectedSellers, i, h).
        nat (numSellers - int i))") auto

text \<open>
  \<open>globalSellers\<close> is the reference the caller passes. \<open>[...globalSellers]\<close>
  allocates a new array with the same elements, \<open>sort\<close> permutes that array in
  place, and the result array is sorted in place before its reference is returned.
\<close>

definition generateSellersForPartH ::
  "jsstring \<Rightarrow> ref \<Rightarrow> draws \<Rightarrow> store \<Rightarrow> js_error + (ref \<times> store)" where
  "generateSellersForPartH partId globalSellers rnd h =
    (let numSellers = \<lfloor>countDraw rnd * 4\<rfloor> + 2;
         (selectedSellers, h1) = alloc h (Arr [])
     in case readObj h1 globalSellers of
          Some (Arr elems) \<Rightarrow>
            (let (shuffledSellers, h2) = alloc h1 (Arr elems);
                 h3 = h2[shuffledSellers := Arr (applyOrder (order rnd) elems)]
             in case sellersLoopH partId rnd numSellers shuffledSellers selectedSellers 0 h3 of
                  Inl err \<Rightarrow> Inl err
                | Inr h4 \<Rightarrow>
                   (case readObj h4 selectedSellers of
                      Some (Arr sel) \<Rightarrow>
                        Inr (selectedSellers,
                             h4[selectedSellers := Arr (sort_key (priceAt h4) sel)])
                    | _ \<Rightarrow> Inl TypeError))
        | _ \<Rightarrow> Inl TypeError)"

text \<open>
  The store holds the sellers \<open>ss\<close> at the references \<open>rs\<close>, one by one, and
  likewise for offers: how a pool and a result in the store are read as the lists the
  function on values takes and returns.
\<close>

definition holdsSellers :: "store \<Rightarrow> ref list \<Rightarrow> seller list \<Rightarrow> bool" where
  "holdsSellers h rs ss = list_all2 (\<lambda>r x. readObj h r = Some (SellerObj x)) rs ss"

definition holdsOffers :: "store \<Rightarrow> ref list \<Rightarrow> offer list \<Rightarrow> bool" where
  "holdsOffers h rs os = list_all2 (\<lambda>r x. readObj h r = Some (OfferObj x)) rs os"

section \<open>Concrete inputs\<close>

text \<open>The description and the VIN of the sample request of the repository.\<close>

definition sampleText :: jsstring where
  "sampleText = js ''fren tutmuyor arka k'' @ [dotless_i] @ js ''s'' @ [dotless_i]
     @ js ''mdan ses geliyor''"

definition sampleVin :: jsstring where
  "sampleVin = js ''WDB2020201F685790''"

text \<open>A text with no keyword of any category, in mixed case.\<close>

definition greeting :: jsstring where
  "greeting = js ''Merhaba, bir sorum var''"

text \<open>
  A text in which one keyword of \<open>fren\<close> and one of \<open>elektrik\<close> occur: both
  categories have nine keywords and a first part of weight 0.9.
\<close>

definition tieText :: jsstring where
  "tieText = js ''fren far''"


text \<open>A pool of three sellers, a part identifier, and the draws of one run.\<close>

definition sellerA :: seller where
  "sellerA = \<lparr>s_name = js ''Oto Merkez'', s_location = js ''Istanbul'', s_rating = 4.5,
     s_phone = js ''+90 212 000 00 01'', s_email = js ''merkez@example.com''\<rparr>"

definition sellerB :: seller where
  "sellerB = \<lparr>s_name = js ''Ankara Yedek'', s_location = js ''Ankara'', s_rating = 4.2,
     s_phone = js ''+90 312 000 00 02'', s_email = js ''yedek@example.com''\<rparr>"

definition sellerC :: seller where
  "sellerC = \<lparr>s_name = js ''Ege Oto'', s_location = js ''Izmir'', s_rating = 4.9,
     s_phone = js ''+90 232 000 00 03'', s_email = js ''ege@example.com''\<rparr>"

definition samplePool :: "seller list" where
  "samplePool = [sellerA, sellerB, sellerC]"

definition samplePartId :: jsstring where
  "samplePartId = js ''part-fren-001''"

definition sampleDraws :: draws where
  "sampleDraws = \<lparr>countDraw = 0.5, order = [2, 0, 1],
     priceDraw = (\<lambda>i. if i = 0 then 0.9 else if i = 1 then 0.1 else 0.5),
     stockDraw = (\<lambda>i. 0.37)\<rparr>"

text \<open>
  Data for the handler: offers listed for one part identifier, not in price order,
  and the pool as \<open>global_sellers\<close>.
\<close>

definition listedOffers :: "offer list" where
  "listedOffers =
    [\<lparr>o_name = js ''Ege Oto'', o_location = js ''Izmir'', price = 900, stock = 3,
      o_rating = 4.9, o_phone = js ''+90 232 000 00 03'', o_email = js ''ege@example.com''\<rparr>,
     \<lparr>o_name = js ''Oto Merkez'', o_location = js ''Istanbul'', price = 700, stock = 8,
      o_rating = 4.5, o_phone = js ''+90 212 000 00 01'', o_email = js ''merkez@example.com''\<rparr>]"

definition sampleEnv :: env where
  "sampleEnv = \<lparr>mockSellers =
       \<lparr>listed = (\<lambda>p. if p = js ''part-motor-037'' then Some listedOffers else None),
        global_sellers = Some samplePool\<rparr>,
     deliveryDraw = (\<lambda>k. 0.7),
     now = (\<lambda>k. js ''2024-01-01T00:00:00.000Z'')\<rparr>"

text \<open>A store with the three sellers and, at reference 3, the pool array.\<close>

definition sampleStore :: store where
  "sampleStore = [SellerObj sellerA, SellerObj sellerB, SellerObj sellerC, Arr [0, 1, 2]]"

section \<open>Facts about the classifier\<close>

lemma startsAt_prefix: "startsAt t kw \<longleftrightarrow> prefix kw t"
  by (induction t kw rule: startsAt.induct) auto

lemma str_includes_sublist: "str_includes t kw \<longleftrightarrow> sublist kw t"
  by (induction t) (auto simp: startsAt_prefix sublist_Cons_right)

lemma fold_count: "fold (\<lambda>k n. if P k then n + 1 else n) ks (m::nat) = m + length (filter P ks)"
  by (induction ks arbitrary: m) auto

lemma countKeywordMatches_filter:
  "countKeywordMatches t ks = length (filter (str_includes t) ks)"
  by (simp add: countKeywordMatches_def fold_count)

lemma countKeywordMatches_zero:
  "countKeywordMatches t ks = 0 \<longleftrightarrow> (\<forall>k\<in>set ks. \<not> str_includes t k)"
  by (simp add: countKeywordMatches_filter filter_empty_conv)

lemma densityConfidence_lower: "0.2 \<le> densityConfidence k n"
  by (simp add: densityConfidence_def)

lemma densityConfidence_upper: "densityConfidence k n \<le> 0.95"
  unfolding densityConfidence_def by (rule min.cobounded1)

lemma step_None:
  assumes "candidate t e = None" "parts (snd e) \<noteq> []"
  shows "categoryStep t e st = Inr st"
  using assms by (auto simp: candidate_def categoryStep_def Let_def split: list.splits if_splits)

lemma step_Some:
  assumes "candidate t e = Some c"
  shows "categoryStep t e st =
     Inr (if confidence c > highestConfidence st
          then \<lparr>bestMatch = Some c, highestConfidence = confidence c\<rparr> else st)"
  using assms by (auto simp: candidate_def categoryStep_def Let_def split: list.splits if_splits)

text \<open>
  The loop either keeps the state it starts with, and then no entry has a candidate
  above it, or ends with the first entry whose candidate is the highest.
\<close>

lemma loop_first_max:
  assumes "\<forall>e\<in>set es. parts (snd e) \<noteq> []"
  shows "(categoryLoop t es st = Inr st \<and>
           (\<forall>e\<in>set es. \<forall>c. candidate t e = Some c \<longrightarrow> confidence c \<le> highestConfidence st))
       \<or> (\<exists>pre e post c. es = pre @ e # post \<and> candidate t e = Some c \<and>
             categoryLoop t es st = Inr \<lparr>bestMatch = Some c, highestConfidence = confidence c\<rparr> \<and>
             highestConfidence st < confidence c \<and>
             (\<forall>x\<in>set pre. \<forall>b. candidate t x = Some b \<longrightarrow> confidence b < confidence c) \<and>
             (\<forall>x\<in>set post. \<forall>b. candidate t x = Some b \<longrightarrow> confidence b \<le> confidence c))"
    (is "?keep es st \<or> ?win es st")
  using assms
proof (induction es arbitrary: st)
  case Nil
  then show ?case by simp
next
  case (Cons e0 rest)
  have ne: "parts (snd e0) \<noteq> []" and ne': "\<forall>e\<in>set rest. parts (snd e) \<noteq> []"
    using Cons.prems by auto
  note IH = Cons.IH [OF ne']
  show ?case
  proof (cases "candidate t e0")
    case None
    have step: "categoryStep t e0 st = Inr st"
      using None ne by (rule step_None)
    from IH [of st] show ?thesis
    proof
      assume "?keep rest st"
      then have "?keep (e0 # rest) st" using None step by simp
      then show ?thesis ..
    next
      assume "?win rest st"
      then obtain pre e post c where w: "rest = pre @ e # post" "candidate t e = Some c"
        "categoryLoop t rest st = Inr \<lparr>bestMatch = Some c, highestConfidence = confidence c\<rparr>"
        "highestConfidence st < confidence c"
        "\<forall>x\<in>set pre. \<forall>b. candidate t x = Some b \<longrightarrow> confidence b < confidence c"
        "\<forall>x\<in>set post. \<forall>b. candidate t x = Some b \<longrightarrow> confidence b \<le> confidence c"
        by blast
      have "e0 # rest = (e0 # pre) @ e # post" using w(1) by simp
      moreover have "\<forall>x\<in>set (e0 # pre). \<forall>b. candidate t x = Some b \<longrightarrow> confidence b < confidence c"
        using w(5) None by simp
      moreover have "categoryLoop t (e0 # rest) st =
          Inr \<lparr>bestMatch = Some c, highestConfidence = confidence c\<rparr>"
        using step w(3) by simp
      ultimately have "?win (e0 # rest) st" using w(2,4,6) by blast
      then show ?thesis ..
    qed
  next
    case (Some c0)
    let ?st1 = "if confidence c0 > highestConfidence st
          then \<lparr>bestMatch = Some c0, highestConfidence = confidence c0\<rparr> else st"
    have step: "categoryStep t e0 st = Inr ?st1"
      using Some by (rule step_Some)
    have loop: "categoryLoop t (e0 # rest) st = categoryLoop t rest ?st1"
      using step by simp
    have mono: "highestConfidence st \<le> highestConfidence ?st1" by simp
    have c0_le: "confidence c0 \<le> highestConfidence ?st1" by simp
    from IH [of ?st1] show ?thesis
    proof
      assume k: "?keep rest ?st1"
      show ?thesis
      proof (cases "confidence c0 > highestConfidence st")
        case True
        have "e0 # rest = [] @ e0 # rest" by simp
        moreover have "categoryLoop t (e0 # rest) st =
            Inr \<lparr>bestMatch = Some c0, highestConfidence = confidence c0\<rparr>"
          using k loop True by simp
        moreover have "\<forall>x\<in>set rest. \<forall>b. candidate t x = Some b \<longrightarrow> confidence b \<le> confidence c0"
          using k True by simp
        moreover have "\<forall>x\<in>set []. \<forall>b. candidate t x = Some b \<longrightarrow> confidence b < confidence c0"
          by simp
        ultimately have "?win (e0 # rest) st" using Some True by blast
        then show ?thesis ..
      next
        case False
        then have "?keep (e0 # rest) st" using k loop Some by auto
        then show ?thesis ..
      qed
    next
      assume "?win rest ?st1"
      then obtain pre e post c where w: "rest = pre @ e # post" "candidate t e = Some c"
        "categoryLoop t rest ?st1 = Inr \<lparr>bestMatch = Some c, highestConfidence = confidence c\<rparr>"
        "highestConfidence ?st1 < confidence c"
        "\<forall>x\<in>set pre. \<forall>b. candidate t x = Some b \<longrightarrow> confidence b < confidence c"
        "\<forall>x\<in>set post. \<forall>b. candidate t x = Some b \<longrightarrow> confidence b \<le> confidence c"
        by blast
      have "e0 # rest = (e0 # pre) @ e # post" using w(1) by simp
      moreover have "\<forall>x\<in>set (e0 # pre). \<forall>b. candidate t x = Some b \<longrightarrow> confidence b < confidence c"
        using w(4,5) c0_le Some by auto
      moreover have "categoryLoop t (e0 # rest) st =
          Inr \<lparr>bestMatch = Some c, highestConfidence = confidence c\<rparr>"
        using loop w(3) by simp
      moreover have "highestConfidence st < confidence c" using mono w(4) by linarith
      ultimately have "?win (e0 # rest) st" using w(2,6) by blast
      then show ?thesis ..
    qed
  qed
qed

lemma partMappings_parts: "\<forall>e\<in>set partMappings. parts (snd e) \<noteq> []"
  by (simp add: partMappings_def)

lemma partMappings_weights:
  "\<forall>e\<in>set partMappings. 0 < part.confidence (hd (parts (snd e)))"
  by (simp add: partMappings_def)

lemma candidate_positive:
  assumes "e \<in> set partMappings" "candidate t e = Some c"
  shows "0 < confidence c"
proof -
  from assms(1) partMappings_weights have w: "0 < part.confidence (hd (parts (snd e)))" by blast
  have d: "0 < densityConfidence k n" for k n
    using densityConfidence_lower [of k n] by linarith
  from assms(2) w d show ?thesis
    by (auto simp: candidate_def Let_def split: if_splits list.splits)
qed

text \<open>The result of the classifier, in the two cases of the loop.\<close>

lemma interpret_cases:
  fixes lc d vin
  defines "t \<equiv> lc d"
  shows "(interpretPartFromText lc d vin = Inr fallback \<and>
            (\<forall>e\<in>set partMappings. candidate t e = None))
       \<or> (\<exists>pre e post c. partMappings = pre @ e # post \<and> candidate t e = Some c \<and>
             interpretPartFromText lc d vin = Inr c \<and>
             (\<forall>x\<in>set pre. \<forall>b. candidate t x = Some b \<longrightarrow> confidence b < confidence c) \<and>
             (\<forall>x\<in>set post. \<forall>b. candidate t x = Some b \<longrightarrow> confidence b \<le> confidence c))"
proof -
  let ?st0 = "\<lparr>bestMatch = None, highestConfidence = 0\<rparr>"
  from loop_first_max [OF partMappings_parts, of t ?st0] show ?thesis
  proof
    assume k: "categoryLoop t partMappings ?st0 = Inr ?st0 \<and>
      (\<forall>e\<in>set partMappings. \<forall>c. candidate t e = Some c \<longrightarrow> confidence c \<le> highestConfidence ?st0)"
    have "candidate t e = None" if "e \<in> set partMappings" for e
    proof (cases "candidate t e")
      case (Some c)
      with k that have "confidence c \<le> 0" by auto
      moreover have "0 < confidence c" using that Some by (rule candidate_positive)
      ultimately show ?thesis by simp
    qed simp
    moreover have "interpretPartFromText lc d vin = Inr fallback"
      using k by (simp add: interpretPartFromText_def t_def Let_def)
    ultimately show ?thesis by blast
  next
    assume "\<exists>pre e post c. partMappings = pre @ e # post \<and> candidate t e = Some c \<and>
             categoryLoop t partMappings ?st0 = Inr \<lparr>bestMatch = Some c, highestConfidence = confidence c\<rparr> \<and>
             highestConfidence ?st0 < confidence c \<and>
             (\<forall>x\<in>set pre. \<forall>b. candidate t x = Some b \<longrightarrow> confidence b < confidence c) \<and>
             (\<forall>x\<in>set post. \<forall>b. candidate t x = Some b \<longrightarrow> confidence b \<le> confidence c)"
    then obtain pre e post c where w: "partMappings = pre @ e # post" "candidate t e = Some c"
        "categoryLoop t partMappings ?st0 = Inr \<lparr>bestMatch = Some c, highestConfidence = confidence c\<rparr>"
        "\<forall>x\<in>set pre. \<forall>b. candidate t x = Some b \<longrightarrow> confidence b < confidence c"
        "\<forall>x\<in>set post. \<forall>b. candidate t x = Some b \<longrightarrow> confidence b \<le> confidence c"
      by blast
    have "interpretPartFromText lc d vin = Inr c"
      using w(3) by (simp add: interpretPartFromText_def t_def Let_def)
    with w show ?thesis by blast
  qed
qed

lemmas classifier_defs = partMappings_def js_def categoryStep_def countKeywordMatches_def
  densityConfidence_def Let_def

lemma sampleText_loop:
  "categoryLoop sampleText partMappings \<lparr>bestMatch = None, highestConfidence = 0\<rparr> =
     Inr \<lparr>bestMatch = Some \<lparr>name = js ''Fren Balatas'' @ [dotless_i] @ js '' '' @ [cap_o_umlaut] @ js ''n'',
        ident = js ''part-fren-001'', confidence = 0.42, category = js ''fren'',
        matchedKeywords = 3\<rparr>, highestConfidence = 0.42\<rparr>"
  by (simp add: sampleText_def classifier_defs)

lemma lower_sampleText: "lowerBasicLatin sampleText = sampleText"
  by (simp add: lowerBasicLatin_def sampleText_def js_def)

lemma candidate_None_iff:
  assumes "parts (snd e) \<noteq> []"
  shows "candidate t e = None \<longleftrightarrow> (\<forall>k\<in>set (kwds (snd e)). \<not> str_includes t k)"
  using assms countKeywordMatches_zero [of t "kwds (snd e)"]
  by (auto simp: candidate_def Let_def split: list.splits)

lemma interpret_total: "\<exists>s. interpretPartFromText lc d vin = Inr s"
  using interpret_cases [of lc d vin] by blast

lemma no_keyword_fallback:
  assumes "\<forall>e\<in>set partMappings. \<forall>k\<in>set (kwds (snd e)). \<not> str_includes (lc d) k"
  shows "interpretPartFromText lc d vin = Inr fallback"
proof -
  have none: "candidate (lc d) e = None" if "e \<in> set partMappings" for e
    using that assms partMappings_parts candidate_None_iff by blast
  from interpret_cases [of lc d vin] show ?thesis
  proof
    assume "interpretPartFromText lc d vin = Inr fallback \<and>
            (\<forall>e\<in>set partMappings. candidate (lc d) e = None)"
    then show ?thesis by simp
  next
    assume "\<exists>pre e post c. partMappings = pre @ e # post \<and> candidate (lc d) e = Some c \<and>
             interpretPartFromText lc d vin = Inr c \<and>
             (\<forall>x\<in>set pre. \<forall>b. candidate (lc d) x = Some b \<longrightarrow> confidence b < confidence c) \<and>
             (\<forall>x\<in>set post. \<forall>b. candidate (lc d) x = Some b \<longrightarrow> confidence b \<le> confidence c)"
    then obtain pre e post c where w: "partMappings = pre @ e # post" "candidate (lc d) e = Some c"
      by blast
    have "e \<in> set partMappings" by (subst w(1)) simp
    with none w(2) show ?thesis by simp
  qed
qed

lemma greeting_no_keyword:
  "\<forall>e\<in>set partMappings. \<forall>k\<in>set (kwds (snd e)). \<not> str_includes (lowerBasicLatin greeting) k"
  by (simp add: greeting_def lowerBasicLatin_def partMappings_def js_def)

lemma fren_only:
  "str_includes (lowerBasicLatin (js ''Fren'')) (js ''fren'') \<and>
   (\<forall>e\<in>set partMappings. \<forall>k\<in>set (kwds (snd e)). k \<noteq> js ''fren'' \<longrightarrow> \<not> str_includes (lowerBasicLatin (js ''Fren'')) k)"
  by (simp add: lowerBasicLatin_def partMappings_def js_def)

lemma decomp_unique:
  assumes "distinct (map fst xs)" "xs = p1 @ x # q1" "xs = p2 @ y # q2" "fst x = fst y"
  shows "p1 = p2 \<and> x = y \<and> q1 = q2"
  using assms
proof (induction p1 arbitrary: p2 xs)
  case Nil
  show ?case
  proof (cases p2)
    case Nil
    with Nil.prems show ?thesis by simp
  next
    case (Cons z zs)
    with Nil.prems have "x = z" "y \<in> set xs" by auto
    with Nil.prems Cons show ?thesis by force
  qed
next
  case (Cons a p1)
  show ?case
  proof (cases p2)
    case Nil
    with Cons.prems have "y = a" "x \<in> set (p1 @ x # q1)" by auto
    with Cons.prems Nil show ?thesis by force
  next
    case (Cons z zs)
    with Cons.prems have eq: "a = z" "p1 @ x # q1 = zs @ y # q2" by auto
    have "distinct (map fst (p1 @ x # q1))" using Cons.prems by auto
    from Cons.IH [OF this refl eq(2) Cons.prems(4)] eq Cons show ?thesis by simp
  qed
qed

lemma partMappings_categories:
  "map fst partMappings =
     [js ''fren'', js ''motor'', js ''elektrik'', js ''suspansiyon'', js ''klima'']"
  by (simp add: partMappings_def)

lemma partMappings_distinct: "distinct (map fst partMappings)"
  by (simp add: partMappings_categories js_def)

lemma candidate_category: "candidate t e = Some c \<Longrightarrow> category c = fst e"
  by (auto simp: candidate_def Let_def split: if_splits list.splits)

lemma step_strict:
  assumes "categoryStep t e st = Inr st'"
  shows "st' = st \<or> (highestConfidence st < highestConfidence st' \<and>
            map_option confidence (bestMatch st') = Some (highestConfidence st'))"
  using assms by (auto simp: categoryStep_def Let_def split: if_splits list.splits)

lemma later_tie_not_returned:
  assumes pm: "partMappings = pre @ e1 # mid @ e2 # post"
    and c1: "candidate (lc d) e1 = Some c1" and c2: "candidate (lc d) e2 = Some c2"
    and tie: "confidence c1 = confidence c2"
  shows "interpretPartFromText lc d vin \<noteq> Inr c2"
proof
  assume r: "interpretPartFromText lc d vin = Inr c2"
  from interpret_cases [of lc d vin] show False
  proof
    assume "interpretPartFromText lc d vin = Inr fallback \<and>
            (\<forall>e\<in>set partMappings. candidate (lc d) e = None)"
    moreover have "e2 \<in> set partMappings" by (subst pm) simp
    ultimately show False using c2 by simp
  next
    assume "\<exists>pre e post c. partMappings = pre @ e # post \<and> candidate (lc d) e = Some c \<and>
             interpretPartFromText lc d vin = Inr c \<and>
             (\<forall>x\<in>set pre. \<forall>b. candidate (lc d) x = Some b \<longrightarrow> confidence b < confidence c) \<and>
             (\<forall>x\<in>set post. \<forall>b. candidate (lc d) x = Some b \<longrightarrow> confidence b \<le> confidence c)"
    then obtain pre' e' post' c where w: "partMappings = pre' @ e' # post'"
      "candidate (lc d) e' = Some c" "interpretPartFromText lc d vin = Inr c"
      "\<forall>x\<in>set pre'. \<forall>b. candidate (lc d) x = Some b \<longrightarrow> confidence b < confidence c"
      by blast
    from w(3) r have cc: "c = c2" by simp
    have "fst e' = fst e2"
      using candidate_category [OF w(2)] candidate_category [OF c2] cc by simp
    moreover have "partMappings = (pre @ e1 # mid) @ e2 # post" using pm by simp
    ultimately have "pre' = pre @ e1 # mid"
      using decomp_unique [OF partMappings_distinct w(1)] by blast
    then have "e1 \<in> set pre'" by simp
    with w(4) c1 have "confidence c1 < confidence c" by blast
    with tie cc show False by simp
  qed
qed

lemma tie_split:
  "partMappings = [] @ (partMappings ! 0) # [partMappings ! 1] @ (partMappings ! 2) #
      [partMappings ! 3, partMappings ! 4]"
  by (simp add: partMappings_def)

lemmas candidate_defs = candidate_def partMappings_def js_def countKeywordMatches_def
  densityConfidence_def Let_def

lemma tie_fren:
  "candidate (lowerBasicLatin tieText) (partMappings ! 0) =
     Some \<lparr>name = js ''Fren Balatas'' @ [dotless_i] @ js '' '' @ [cap_o_umlaut] @ js ''n'',
        ident = js ''part-fren-001'', confidence = 0.26, category = js ''fren'',
        matchedKeywords = 1\<rparr>"
  by (simp add: tieText_def lowerBasicLatin_def candidate_defs)

lemma tie_elektrik:
  "candidate (lowerBasicLatin tieText) (partMappings ! 2) =
     Some \<lparr>name = js ''Ak'' @ [u_umlaut],
        ident = js ''part-elektrik-001'', confidence = 0.26, category = js ''elektrik'',
        matchedKeywords = 1\<rparr>"
  by (simp add: tieText_def lowerBasicLatin_def candidate_defs)

lemma tie_result:
  "interpretPartFromText lowerBasicLatin tieText sampleVin =
     Inr \<lparr>name = js ''Fren Balatas'' @ [dotless_i] @ js '' '' @ [cap_o_umlaut] @ js ''n'',
        ident = js ''part-fren-001'', confidence = 0.26, category = js ''fren'',
        matchedKeywords = 1\<rparr>"
  by (simp add: interpretPartFromText_def tieText_def lowerBasicLatin_def classifier_defs)

lemma candidate_weight:
  assumes "candidate t e = Some c"
  shows "\<exists>bestPart rest. parts (snd e) = bestPart # rest \<and> category c = fst e \<and>
     ident c = ident bestPart \<and> name c = name bestPart \<and>
     matchedKeywords c = countKeywordMatches t (kwds (snd e)) \<and>
     confidence c = part.confidence bestPart *
        densityConfidence (countKeywordMatches t (kwds (snd e))) (length (kwds (snd e)))"
  using assms by (auto simp: candidate_def Let_def split: if_splits list.splits)

lemma weighted_le:
  assumes "0 \<le> (w::real)"
  shows "w * densityConfidence k n \<le> w"
proof -
  have "densityConfidence k n \<le> 1"
    unfolding densityConfidence_def by (simp add: min_le_iff_disj)
  with assms show ?thesis by (simp add: mult_left_le)
qed

lemma result_below_weight:
  "\<exists>s. interpretPartFromText lc d vin = Inr s \<and>
     (s = fallback \<or>
      (\<exists>e bestPart rest. e \<in> set partMappings \<and> parts (snd e) = bestPart # rest \<and>
         category s = fst e \<and> ident s = ident bestPart \<and>
         confidence s = part.confidence bestPart *
           densityConfidence (countKeywordMatches (lc d) (kwds (snd e))) (length (kwds (snd e))) \<and>
         confidence s \<le> part.confidence bestPart))"
proof -
  from interpret_cases [of lc d vin] show ?thesis
  proof
    assume "interpretPartFromText lc d vin = Inr fallback \<and>
            (\<forall>e\<in>set partMappings. candidate (lc d) e = None)"
    then show ?thesis by blast
  next
    assume "\<exists>pre e post c. partMappings = pre @ e # post \<and> candidate (lc d) e = Some c \<and>
             interpretPartFromText lc d vin = Inr c \<and>
             (\<forall>x\<in>set pre. \<forall>b. candidate (lc d) x = Some b \<longrightarrow> confidence b < confidence c) \<and>
             (\<forall>x\<in>set post. \<forall>b. candidate (lc d) x = Some b \<longrightarrow> confidence b \<le> confidence c)"
    then obtain pre e post c where w: "partMappings = pre @ e # post"
      "candidate (lc d) e = Some c" "interpretPartFromText lc d vin = Inr c"
      by blast
    have mem: "e \<in> set partMappings" by (subst w(1)) simp
    from candidate_weight [OF w(2)] obtain bestPart rest where
      b: "parts (snd e) = bestPart # rest" "category c = fst e" "ident c = ident bestPart"
        "confidence c = part.confidence bestPart *
           densityConfidence (countKeywordMatches (lc d) (kwds (snd e))) (length (kwds (snd e)))"
      by blast
    have "0 < part.confidence (hd (parts (snd e)))"
      using partMappings_weights mem by blast
    then have "0 \<le> part.confidence bestPart" using b(1) by simp
    then have "confidence c \<le> part.confidence bestPart"
      unfolding b(4) by (rule weighted_le)
    with w(3) mem b show ?thesis by blast
  qed
qed

lemma first_entry: "partMappings ! 0 \<in> set partMappings"
  by (simp add: partMappings_def)

section \<open>The claims about the classifier\<close>

text \<open>
  Claim C1, as amended. On the text "fren tutmuyor arka kisimdan ses geliyor" (with
  dotless i, already in lower case) the classifier returns the first brake part,
  \<open>part-fren-001\<close>, in category \<open>fren\<close>, with three matched keywords and the
  confidence 0.9 * (3/9 * 0.8 + 0.2) = 0.42.
\<close>

theorem C1_scenario_result:
  assumes "lc sampleText = sampleText"
  shows "interpretPartFromText lc sampleText vin =
     Inr \<lparr>name = js ''Fren Balatas'' @ [dotless_i] @ js '' '' @ [cap_o_umlaut] @ js ''n'',
        ident = js ''part-fren-001'', confidence = 0.42, category = js ''fren'',
        matchedKeywords = 3\<rparr>"
  by (simp add: interpretPartFromText_def assms sampleText_loop)

theorem C1_scenario_result_witness:
  "lowerBasicLatin sampleText = sampleText \<and>
   interpretPartFromText lowerBasicLatin sampleText sampleVin =
     Inr \<lparr>name = js ''Fren Balatas'' @ [dotless_i] @ js '' '' @ [cap_o_umlaut] @ js ''n'',
        ident = js ''part-fren-001'', confidence = 0.42, category = js ''fren'',
        matchedKeywords = 3\<rparr>"
  using C1_scenario_result [of lowerBasicLatin sampleVin] lower_sampleText by simp

text \<open>
  Claim C1 as stated asks for a confidence above 0.5 on that text. The conjunction of
  the four properties fails there: the confidence is 0.42.
\<close>

theorem C1_scenario_counterexample:
  "\<not> (category (projr (interpretPartFromText lowerBasicLatin sampleText sampleVin)) = js ''fren'' \<and>
      ident (projr (interpretPartFromText lowerBasicLatin sampleText sampleVin)) = js ''part-fren-001'' \<and>
      3 \<le> matchedKeywords (projr (interpretPartFromText lowerBasicLatin sampleText sampleVin)) \<and>
      0.5 < confidence (projr (interpretPartFromText lowerBasicLatin sampleText sampleVin)))"
  by (simp add: interpretPartFromText_def lower_sampleText sampleText_loop)

text \<open>
  Claim C2. For every text and every category, the density confidence the classifier
  computes lies in [0, 0.95]. The classifier returns a suggestion; unless that is the
  fallback, it is the first part of a category, with confidence the part's weight times
  the density confidence of the category, and so at most the part's weight.
\<close>

theorem C2_confidence_bounds:
  "(\<forall>e\<in>set partMappings.
      0 \<le> densityConfidence (countKeywordMatches (lc d) (kwds (snd e))) (length (kwds (snd e))) \<and>
      densityConfidence (countKeywordMatches (lc d) (kwds (snd e))) (length (kwds (snd e))) \<le> 0.95) \<and>
   (\<exists>s. interpretPartFromText lc d vin = Inr s \<and>
     (s = fallback \<or>
      (\<exists>e bestPart rest. e \<in> set partMappings \<and> parts (snd e) = bestPart # rest \<and>
         category s = fst e \<and> ident s = ident bestPart \<and>
         confidence s = part.confidence bestPart *
           densityConfidence (countKeywordMatches (lc d) (kwds (snd e))) (length (kwds (snd e))) \<and>
         confidence s \<le> part.confidence bestPart)))"
proof -
  have "0 \<le> densityConfidence k n \<and> densityConfidence k n \<le> 0.95" for k n
    using densityConfidence_lower [of k n] densityConfidence_upper [of k n] by simp
  then have "\<forall>e\<in>set partMappings.
      0 \<le> densityConfidence (countKeywordMatches (lc d) (kwds (snd e))) (length (kwds (snd e))) \<and>
      densityConfidence (countKeywordMatches (lc d) (kwds (snd e))) (length (kwds (snd e))) \<le> 0.95"
    by blast
  with result_below_weight [of lc d vin] show ?thesis by blast
qed

theorem C2_confidence_bounds_witness:
  "densityConfidence (countKeywordMatches (lowerBasicLatin sampleText) (kwds (snd (partMappings ! 0))))
      (length (kwds (snd (partMappings ! 0)))) \<le> 0.95 \<and>
   densityConfidence (countKeywordMatches (lowerBasicLatin sampleText) (kwds (snd (partMappings ! 0))))
      (length (kwds (snd (partMappings ! 0)))) = 7 / 15 \<and>
   confidence (projr (interpretPartFromText lowerBasicLatin sampleText sampleVin)) = 0.42 \<and>
   part.confidence (hd (parts (snd (partMappings ! 0)))) = 0.9"
proof -
  have "\<forall>e\<in>set partMappings.
      0 \<le> densityConfidence (countKeywordMatches (lowerBasicLatin sampleText) (kwds (snd e))) (length (kwds (snd e))) \<and>
      densityConfidence (countKeywordMatches (lowerBasicLatin sampleText) (kwds (snd e))) (length (kwds (snd e))) \<le> 0.95"
    using C2_confidence_bounds [of lowerBasicLatin sampleText sampleVin] by (elim conjE)
  with first_entry have "densityConfidence (countKeywordMatches (lowerBasicLatin sampleText) (kwds (snd (partMappings ! 0))))
      (length (kwds (snd (partMappings ! 0)))) \<le> 0.95" by blast
  moreover have "densityConfidence (countKeywordMatches (lowerBasicLatin sampleText) (kwds (snd (partMappings ! 0))))
      (length (kwds (snd (partMappings ! 0)))) = 7 / 15"
    by (simp add: lower_sampleText) (simp add: sampleText_def classifier_defs)
  moreover have "confidence (projr (interpretPartFromText lowerBasicLatin sampleText sampleVin)) = 0.42"
    by (simp add: interpretPartFromText_def lower_sampleText sampleText_loop)
  moreover have "part.confidence (hd (parts (snd (partMappings ! 0)))) = 0.9"
    by (simp add: partMappings_def)
  ultimately show ?thesis by blast
qed

text \<open>
  Claim C3. The categories are evaluated in the order fren, motor, elektrik,
  suspansiyon, klima. One round of the loop either leaves the best candidate as it is
  or replaces it by one of strictly higher adjusted confidence. So the suggestion
  returned is the candidate of the first category whose adjusted confidence is the
  highest: every earlier category with a candidate is strictly below it, every later
  one at most equal. When two categories have candidates of equal adjusted confidence,
  the candidate of the later one is not returned.
\<close>

theorem C3_order_and_ties:
  "map fst partMappings =
     [js ''fren'', js ''motor'', js ''elektrik'', js ''suspansiyon'', js ''klima''] \<and>
   (\<forall>e st st'. categoryStep (lc d) e st = Inr st' \<longrightarrow>
      st' = st \<or> (highestConfidence st < highestConfidence st' \<and>
        map_option confidence (bestMatch st') = Some (highestConfidence st'))) \<and>
   (\<exists>s. interpretPartFromText lc d vin = Inr s \<and>
      ((s = fallback \<and> (\<forall>e\<in>set partMappings. candidate (lc d) e = None)) \<or>
       (\<exists>pre e post. partMappings = pre @ e # post \<and> candidate (lc d) e = Some s \<and>
          (\<forall>x\<in>set pre. \<forall>b. candidate (lc d) x = Some b \<longrightarrow> confidence b < confidence s) \<and>
          (\<forall>x\<in>set post. \<forall>b. candidate (lc d) x = Some b \<longrightarrow> confidence b \<le> confidence s)))) \<and>
   (\<forall>pre e1 mid e2 post c1 c2.
      partMappings = pre @ e1 # mid @ e2 # post \<and> candidate (lc d) e1 = Some c1 \<and>
      candidate (lc d) e2 = Some c2 \<and> confidence c1 = confidence c2 \<longrightarrow>
      interpretPartFromText lc d vin \<noteq> Inr c2)"
proof (intro conjI)
  show "map fst partMappings =
     [js ''fren'', js ''motor'', js ''elektrik'', js ''suspansiyon'', js ''klima'']"
    by (rule partMappings_categories)
  show "\<forall>e st st'. categoryStep (lc d) e st = Inr st' \<longrightarrow>
      st' = st \<or> (highestConfidence st < highestConfidence st' \<and>
        map_option confidence (bestMatch st') = Some (highestConfidence st'))"
    using step_strict by blast
  show "\<exists>s. interpretPartFromText lc d vin = Inr s \<and>
      ((s = fallback \<and> (\<forall>e\<in>set partMappings. candidate (lc d) e = None)) \<or>
       (\<exists>pre e post. partMappings = pre @ e # post \<and> candidate (lc d) e = Some s \<and>
          (\<forall>x\<in>set pre. \<forall>b. candidate (lc d) x = Some b \<longrightarrow> confidence b < confidence s) \<and>
          (\<forall>x\<in>set post. \<forall>b. candidate (lc d) x = Some b \<longrightarrow> confidence b \<le> confidence s)))"
    using interpret_cases [of lc d vin] by blast
  show "\<forall>pre e1 mid e2 post c1 c2.
      partMappings = pre @ e1 # mid @ e2 # post \<and> candidate (lc d) e1 = Some c1 \<and>
      candidate (lc d) e2 = Some c2 \<and> confidence c1 = confidence c2 \<longrightarrow>
      interpretPartFromText lc d vin \<noteq> Inr c2"
    using later_tie_not_returned by blast
qed

theorem C3_order_and_ties_witness:
  "confidence (the (candidate (lowerBasicLatin tieText) (partMappings ! 0))) =
     confidence (the (candidate (lowerBasicLatin tieText) (partMappings ! 2))) \<and>
   category (projr (interpretPartFromText lowerBasicLatin tieText sampleVin)) = js ''fren'' \<and>
   interpretPartFromText lowerBasicLatin tieText sampleVin \<noteq>
     Inr (the (candidate (lowerBasicLatin tieText) (partMappings ! 2)))"
proof -
  let ?c1 = "the (candidate (lowerBasicLatin tieText) (partMappings ! 0))"
  let ?c2 = "the (candidate (lowerBasicLatin tieText) (partMappings ! 2))"
  have all: "\<forall>pre e1 mid e2 post c1 c2.
      partMappings = pre @ e1 # mid @ e2 # post \<and>
      candidate (lowerBasicLatin tieText) e1 = Some c1 \<and>
      candidate (lowerBasicLatin tieText) e2 = Some c2 \<and> confidence c1 = confidence c2 \<longrightarrow>
      interpretPartFromText lowerBasicLatin tieText sampleVin \<noteq> Inr c2"
    using C3_order_and_ties [of lowerBasicLatin tieText sampleVin] by (elim conjE)
  have c1: "candidate (lowerBasicLatin tieText) (partMappings ! 0) = Some ?c1"
    by (simp add: tie_fren)
  have c2: "candidate (lowerBasicLatin tieText) (partMappings ! 2) = Some ?c2"
    by (simp add: tie_elektrik)
  have tie: "confidence ?c1 = confidence ?c2"
    by (simp add: tie_fren tie_elektrik)
  have "interpretPartFromText lowerBasicLatin tieText sampleVin \<noteq> Inr ?c2"
    by (rule all [rule_format, of "[]" "partMappings ! 0" "[partMappings ! 1]"
          "partMappings ! 2" "[partMappings ! 3, partMappings ! 4]" ?c1 ?c2])
       (intro conjI tie_split c1 c2 tie)
  with tie show ?thesis
    by (simp add: tie_result)
qed

text \<open>
  Claim C6. The classifier returns a suggestion for every text (no branch of it
  raises). When no keyword of any category occurs in the lower-cased text, the
  suggestion is the fallback: id \<open>part-general-001\<close>, confidence 0.3, category
  \<open>general\<close>, no matched keyword.
\<close>

theorem C6_fallback_total:
  "(\<exists>s. interpretPartFromText lc d vin = Inr s) \<and>
   ((\<forall>e\<in>set partMappings. \<forall>k\<in>set (kwds (snd e)). \<not> str_includes (lc d) k) \<longrightarrow>
      interpretPartFromText lc d vin = Inr fallback) \<and>
   ident fallback = js ''part-general-001'' \<and> confidence fallback = 0.3 \<and>
   category fallback = js ''general'' \<and> matchedKeywords fallback = 0"
  using interpret_total [of lc d vin] no_keyword_fallback [of lc d vin]
  by (simp add: fallback_def)

theorem C6_fallback_total_witness:
  "\<not> str_includes (lowerBasicLatin greeting) (js ''fren'') \<and>
   interpretPartFromText lowerBasicLatin greeting sampleVin = Inr fallback \<and>
   ident fallback = js ''part-general-001''"
  using C6_fallback_total [of lowerBasicLatin greeting sampleVin] greeting_no_keyword
  by (simp add: greeting_def lowerBasicLatin_def js_def)

text \<open>
  Claim C7. When \<open>fren\<close> occurs in the lower-cased text and no other keyword of any
  category does, the classifier returns category \<open>fren\<close> with one matched keyword
  and confidence 0.9 * min(0.95, (1/9) * 0.8 + 0.2).
\<close>

theorem C7_only_fren:
  assumes "str_includes (lc d) (js ''fren'')"
    and "\<forall>e\<in>set partMappings. \<forall>k\<in>set (kwds (snd e)). k \<noteq> js ''fren'' \<longrightarrow> \<not> str_includes (lc d) k"
  shows "\<exists>s. interpretPartFromText lc d vin = Inr s \<and> category s = js ''fren'' \<and>
     matchedKeywords s = 1 \<and> confidence s = 0.9 * min 0.95 ((1 / 9) * 0.8 + 0.2)"
  using assms
  by (simp add: interpretPartFromText_def classifier_defs)

theorem C7_only_fren_witness:
  "str_includes (lowerBasicLatin (js ''Fren'')) (js ''fren'') \<and>
   category (projr (interpretPartFromText lowerBasicLatin (js ''Fren'') sampleVin)) = js ''fren'' \<and>
   matchedKeywords (projr (interpretPartFromText lowerBasicLatin (js ''Fren'') sampleVin)) = 1 \<and>
   confidence (projr (interpretPartFromText lowerBasicLatin (js ''Fren'') sampleVin)) = 0.26"
  using C7_only_fren [of lowerBasicLatin "js ''Fren''" sampleVin] fren_only
  by auto

text \<open>
  Claim C9. The result of the classifier depends on the description only: two calls
  with the same description and any two VINs return the same value. The function has
  no argument for a random source, and its value is a function of its arguments.
\<close>

theorem C9_vin_irrelevant:
  "interpretPartFromText lc description vin1 = interpretPartFromText lc description vin2"
  by (simp add: interpretPartFromText_def)

section \<open>Facts about the offer synthesizer\<close>

declare sellersLoop.simps [simp del]

lemma sellersLoop_map:
  "sellersLoop partId rnd numSellers sh i acc =
     acc @ map (\<lambda>j. offerFor partId rnd j (sh ! j)) [i..<nat (min numSellers (int (length sh)))]"
proof (induction partId rnd numSellers sh i acc rule: sellersLoop.induct)
  case (1 partId rnd numSellers sh i acc)
  show ?case
  proof (cases "int i < min numSellers (int (length sh))")
    case True
    then have lt: "i < nat (min numSellers (int (length sh)))" by linarith
    have "sellersLoop partId rnd numSellers sh i acc =
        sellersLoop partId rnd numSellers sh (Suc i) (acc @ [offerFor partId rnd i (sh ! i)])"
      using True by (subst sellersLoop.simps) simp
    also have "\<dots> = (acc @ [offerFor partId rnd i (sh ! i)]) @
        map (\<lambda>j. offerFor partId rnd j (sh ! j)) [Suc i..<nat (min numSellers (int (length sh)))]"
      using True by (rule "1.IH")
    also have "\<dots> = acc @ map (\<lambda>j. offerFor partId rnd j (sh ! j))
        [i..<nat (min numSellers (int (length sh)))]"
      using lt by (simp add: upt_conv_Cons)
    finally show ?thesis .
  next
    case False
    then have "\<not> i < nat (min numSellers (int (length sh)))" by linarith
    then show ?thesis using False by (subst sellersLoop.simps) auto
  qed
qed

lemma generate_eq:
  "generateSellersForPart partId pool rnd =
     sort_key price (map (\<lambda>j. offerFor partId rnd j (applyOrder (order rnd) pool ! j))
       [0..<nat (min (\<lfloor>countDraw rnd * 4\<rfloor> + 2) (int (length (order rnd))))])"
  by (simp add: generateSellersForPart_def Let_def sellersLoop_map applyOrder_def)

lemma generate_length:
  "length (generateSellersForPart partId pool rnd) =
     nat (min (\<lfloor>countDraw rnd * 4\<rfloor> + 2) (int (length (order rnd))))"
  by (simp add: generate_eq)

lemma numSellers_range:
  assumes "0 \<le> r" "r < (1::real)"
  shows "2 \<le> \<lfloor>r * 4\<rfloor> + 2 \<and> \<lfloor>r * 4\<rfloor> + 2 \<le> 5"
proof -
  have "0 \<le> \<lfloor>r * 4\<rfloor>" using assms by simp
  moreover have "\<lfloor>r * 4\<rfloor> < 4" using assms by (simp add: floor_less_iff)
  ultimately show ?thesis by linarith
qed

lemma order_length:
  assumes "mset ord = mset [0..<n]"
  shows "length ord = n"
  using assms by (metis length_upt minus_nat.diff_0 size_mset)

lemma basePrice_firstMatching: "basePrice partId = firstMatchingPrice partId"
  by (simp add: basePrice_def firstMatchingPrice_def priceRules_def)

lemma factor_range:
  assumes "0 \<le> r" "r < (1::real)"
  shows "0.8 \<le> 1 + (r - 0.5) * 0.4 \<and> 1 + (r - 0.5) * 0.4 \<le> 1.2"
  using assms by (simp add: field_simps)

lemma offerFor_price:
  "price (offerFor partId rnd i s) =
     Math_round (real_of_int (basePrice partId) * (1 + (priceDraw rnd i - 0.5) * 0.4))"
  by (simp add: offerFor_def Let_def)

lemma generate_set:
  assumes "x \<in> set (generateSellersForPart partId pool rnd)"
  shows "\<exists>j s. x = offerFor partId rnd j s"
  using assms by (auto simp: generate_eq)

lemma generate_sorted: "sorted (map price (generateSellersForPart partId pool rnd))"
  by (simp add: generateSellersForPart_def Let_def)

text \<open>
  On a list of offers \<open>sortByPrice\<close> is the stable sort by price; a list of profiles
  it leaves as it is.
\<close>

lemma insertByPrice_offers:
  assumes "servedPrice a \<noteq> None" "\<forall>b\<in>set bs. servedPrice b \<noteq> None"
  shows "insertByPrice a bs =
     insort_key (\<lambda>c. case servedPrice c of Some p \<Rightarrow> p | None \<Rightarrow> 0) a bs"
  using assms by (induction bs) (auto simp: priceAfter_def)

lemma sortByPrice_offers:
  assumes "\<forall>b\<in>set bs. servedPrice b \<noteq> None"
  shows "sortByPrice bs = sort_key (\<lambda>c. case servedPrice c of Some p \<Rightarrow> p | None \<Rightarrow> 0) bs"
  using assms
proof (induction bs)
  case Nil
  then show ?case by (simp add: sortByPrice_def)
next
  case (Cons a bs)
  then have IH: "sortByPrice bs =
      sort_key (\<lambda>c. case servedPrice c of Some p \<Rightarrow> p | None \<Rightarrow> 0) bs" by simp
  have "\<forall>b\<in>set (sortByPrice bs). servedPrice b \<noteq> None"
    using Cons.prems by (simp add: IH)
  with Cons.prems have "insertByPrice a (sortByPrice bs) =
      insort_key (\<lambda>c. case servedPrice c of Some p \<Rightarrow> p | None \<Rightarrow> 0) a (sortByPrice bs)"
    by (simp add: insertByPrice_offers)
  then show ?case by (simp add: sortByPrice_def IH [unfolded sortByPrice_def])
qed



lemma nonDecreasing_sorted:
  assumes "\<forall>b\<in>set bs. servedPrice b \<noteq> None"
    and "sorted (map (\<lambda>c. case servedPrice c of Some p \<Rightarrow> p | None \<Rightarrow> 0) bs)"
  shows "nonDecreasing (map servedPrice bs)"
  using assms
proof (induction bs rule: induct_list012)
  case 1
  then show ?case by simp
next
  case (2 a)
  then show ?case by simp
next
  case (3 a b bs)
  then show ?case by auto
qed

lemma offers_sent_sorted:
  "nonDecreasing (map servedPrice
     (sortByPrice (map (\<lambda>(k, seller). ServedOffer seller (f k)) (enumerate n xs))))"
proof -
  let ?ys = "map (\<lambda>(k, seller). ServedOffer seller (f k)) (enumerate n xs)"
  have all: "\<forall>b\<in>set ?ys. servedPrice b \<noteq> None"
    by (auto simp: servedPrice_def)
  have s: "sortByPrice ?ys =
      sort_key (\<lambda>c. case servedPrice c of Some p \<Rightarrow> p | None \<Rightarrow> 0) ?ys"
    using all by (rule sortByPrice_offers)
  have "\<forall>b\<in>set (sortByPrice ?ys). servedPrice b \<noteq> None"
    unfolding s using all by simp
  moreover have "sorted (map (\<lambda>c. case servedPrice c of Some p \<Rightarrow> p | None \<Rightarrow> 0)
      (sortByPrice ?ys))"
    unfolding s by (rule sorted_sort_key)
  ultimately show ?thesis by (rule nonDecreasing_sorted)
qed


lemma getProperty_other:
  assumes "key \<noteq> js ''global_sellers''"
  shows "getProperty m key \<noteq> SellerArray pool"
  using assms by (auto simp: getProperty_def split: option.splits)

text \<open>
  For every part identifier but \<open>global_sellers\<close> the list sent is a list of offers in
  non-decreasing order of price.
\<close>

lemma handler_offers_sorted:
  assumes "getSellersForPart e partId rnd = Success ls n"
    and "partId \<noteq> js ''global_sellers''"
  shows "nonDecreasing (map servedPrice ls)"
proof -
  have np: "getProperty (mockSellers e) partId \<noteq> SellerArray pool" for pool
    using assms(2) by (rule getProperty_other)
  from assms(1) obtain xs where
    "ls = sortByPrice (map (\<lambda>(k, seller). ServedOffer seller (metadataFor e partId k))
        (enumerate 0 xs))"
    using np
    by (auto simp: getSellersForPart_def Let_def falsy_def
        split: if_splits option.splits jsvalue.splits)
  then show ?thesis by (simp add: offers_sent_sorted)
qed


lemmas offer_defs = offerFor_def basePrice_def Math_round_def applyOrder_def Let_def js_def

lemma sample_generate:
  "generateSellersForPart samplePartId samplePool sampleDraws =
    [\<lparr>o_name = js ''Oto Merkez'', o_location = js ''Istanbul'', price = 252, stock = 10,
      o_rating = 4.5, o_phone = js ''+90 212 000 00 01'', o_email = js ''merkez@example.com''\<rparr>,
     \<lparr>o_name = js ''Ankara Yedek'', o_location = js ''Ankara'', price = 300, stock = 10,
      o_rating = 4.2, o_phone = js ''+90 312 000 00 02'', o_email = js ''yedek@example.com''\<rparr>,
     \<lparr>o_name = js ''Ege Oto'', o_location = js ''Izmir'', price = 348, stock = 10,
      o_rating = 4.9, o_phone = js ''+90 232 000 00 03'', o_email = js ''ege@example.com''\<rparr>]"
proof -
  have n: "nat (min (\<lfloor>countDraw sampleDraws * 4\<rfloor> + 2) (int (length (order sampleDraws)))) = 3"
    by (simp add: sampleDraws_def)
  have u: "[0..<3] = [0, 1, 2::nat]"
    by (simp add: upt_rec)
  show ?thesis
    unfolding generate_eq n u
    by (simp add: sampleDraws_def samplePool_def samplePartId_def
        sellerA_def sellerB_def sellerC_def offer_defs)
qed

lemma sample_draws_ok:
  "0 \<le> countDraw sampleDraws \<and> countDraw sampleDraws < 1 \<and>
   mset (order sampleDraws) = mset [0..<length samplePool]"
  by (simp add: sampleDraws_def samplePool_def upt_rec)

lemma sample_listed:
  "getSellersForPart sampleEnv (js ''part-motor-037'') sampleDraws =
     Success [ServedOffer (listedOffers ! 1) (metadataFor sampleEnv (js ''part-motor-037'') 1),
              ServedOffer (listedOffers ! 0) (metadataFor sampleEnv (js ''part-motor-037'') 0)] 2"
  by (simp add: getSellersForPart_def getProperty_def sampleEnv_def listedOffers_def
      falsy_def lengthOf_def sortByPrice_def priceAfter_def servedPrice_def js_def Let_def)

lemma sample_inherited:
  "getSellersForPart sampleEnv (js ''constructor'') sampleDraws = Status500 \<and>
   getSellersForPart sampleEnv (js ''toString'') sampleDraws = Status404"
  by (simp add: getSellersForPart_def getProperty_def objectPrototype_def sampleEnv_def
      falsy_def lengthOf_def js_def Let_def)

section \<open>The claims about the offer synthesizer\<close>

text \<open>
  Claim C4. With the draw behind \<open>numSellers\<close> in [0, 1) and the sorted copy a
  permutation of the pool, the number of offers returned is at most the size of the
  pool and lies between min(2, size) and min(5, size); for the empty pool the result
  is the empty list.
\<close>

theorem C4_offer_count:
  assumes "0 \<le> countDraw rnd" "countDraw rnd < 1"
    and "mset (order rnd) = mset [0..<length pool]"
  shows "length (generateSellersForPart partId pool rnd) \<le> length pool \<and>
     min 2 (length pool) \<le> length (generateSellersForPart partId pool rnd) \<and>
     length (generateSellersForPart partId pool rnd) \<le> min 5 (length pool) \<and>
     (pool = [] \<longrightarrow> generateSellersForPart partId pool rnd = [])"
proof -
  have len: "length (order rnd) = length pool" using assms(3) by (rule order_length)
  from numSellers_range [OF assms(1,2)]
  have n: "2 \<le> \<lfloor>countDraw rnd * 4\<rfloor> + 2" "\<lfloor>countDraw rnd * 4\<rfloor> + 2 \<le> 5" by simp_all
  have l: "length (generateSellersForPart partId pool rnd) =
      nat (min (\<lfloor>countDraw rnd * 4\<rfloor> + 2) (int (length pool)))"
    by (simp add: generate_length len)
  have "pool = [] \<longrightarrow> generateSellersForPart partId pool rnd = []"
    using l by auto
  moreover have "length (generateSellersForPart partId pool rnd) \<le> length pool"
    using l by linarith
  moreover have "min 2 (length pool) \<le> length (generateSellersForPart partId pool rnd)"
    using l n by linarith
  moreover have "length (generateSellersForPart partId pool rnd) \<le> min 5 (length pool)"
    using l n by linarith
  ultimately show ?thesis by blast
qed

theorem C4_offer_count_witness:
  "0 \<le> countDraw sampleDraws \<and> countDraw sampleDraws < 1 \<and>
   mset (order sampleDraws) = mset [0..<length samplePool] \<and>
   length (generateSellersForPart samplePartId samplePool sampleDraws) = 3 \<and>
   min 2 (length samplePool) \<le> length (generateSellersForPart samplePartId samplePool sampleDraws) \<and>
   generateSellersForPart samplePartId [] (sampleDraws\<lparr>order := []\<rparr>) = []"
proof -
  have "min 2 (length samplePool) \<le> length (generateSellersForPart samplePartId samplePool sampleDraws)"
    using C4_offer_count [of sampleDraws samplePool samplePartId] sample_draws_ok by blast
  moreover have "generateSellersForPart samplePartId [] (sampleDraws\<lparr>order := []\<rparr>) = []"
    using C4_offer_count [of "sampleDraws\<lparr>order := []\<rparr>" "[]" samplePartId]
    by (simp add: sampleDraws_def)
  moreover have "length (generateSellersForPart samplePartId samplePool sampleDraws) = 3"
    by (simp add: sample_generate)
  ultimately show ?thesis using sample_draws_ok by blast
qed

text \<open>
  Claim C5. The base price of a part identifier is the price of the first rule, in the
  order motor 800, fren 300, elektrik 200, suspansiyon 400, klima 250, govde 600,
  ic-aksam 150, whose key occurs in the identifier, and 100 when none occurs. With the
  price draws in [0, 1), the price of every offer returned is the base price times a
  factor in [0.8, 1.2], rounded to the nearest integer.
\<close>

theorem C5_price_rule:
  assumes "\<forall>i. 0 \<le> priceDraw rnd i \<and> priceDraw rnd i < 1"
  shows "basePrice partId = firstMatchingPrice partId \<and>
     (\<forall>x\<in>set (generateSellersForPart partId pool rnd).
        \<exists>f. 0.8 \<le> f \<and> f \<le> 1.2 \<and>
            price x = Math_round (real_of_int (basePrice partId) * f))"
proof (intro conjI ballI)
  show "basePrice partId = firstMatchingPrice partId" by (rule basePrice_firstMatching)
next
  fix x assume "x \<in> set (generateSellersForPart partId pool rnd)"
  then obtain j s where x: "x = offerFor partId rnd j s" using generate_set by blast
  let ?f = "1 + (priceDraw rnd j - 0.5) * 0.4"
  have "0.8 \<le> ?f \<and> ?f \<le> 1.2" using assms factor_range by blast
  moreover have "price x = Math_round (real_of_int (basePrice partId) * ?f)"
    by (simp add: x offerFor_price)
  ultimately show "\<exists>f. 0.8 \<le> f \<and> f \<le> 1.2 \<and>
            price x = Math_round (real_of_int (basePrice partId) * f)" by blast
qed

theorem C5_price_rule_witness:
  "basePrice samplePartId = 300 \<and> firstMatchingPrice samplePartId = 300 \<and>
   map price (generateSellersForPart samplePartId samplePool sampleDraws) = [252, 300, 348] \<and>
   Math_round (300 * 0.84) = 252 \<and> Math_round (300 * 1.16) = 348"
proof -
  have d: "\<forall>i. 0 \<le> priceDraw sampleDraws i \<and> priceDraw sampleDraws i < 1"
    by (simp add: sampleDraws_def)
  have b: "basePrice samplePartId = 300"
    by (simp add: basePrice_def samplePartId_def js_def)
  from C5_price_rule [OF d, of samplePartId samplePool] have "basePrice samplePartId = firstMatchingPrice samplePartId"
    by (elim conjE)
  with b have "firstMatchingPrice samplePartId = 300" by simp
  with b show ?thesis by (simp add: sample_generate Math_round_def)
qed


section \<open>Facts about the synthesizer on a store\<close>

declare sellersLoopH.simps [simp del]

lemma insort_related:
  assumes "list_all2 R xs ys" "R x y" "\<forall>a b. R a b \<longrightarrow> f a = g b"
  shows "list_all2 R (insort_key f x xs) (insort_key g y ys)"
  using assms
proof (induction xs ys rule: list_all2_induct)
  case Nil
  then show ?case by simp
next
  case (Cons a xs b ys)
  then have "f a = g b" "f x = g y" by blast+
  with Cons show ?case by simp
qed

lemma sort_related:
  assumes "list_all2 R xs ys" "\<forall>a b. R a b \<longrightarrow> f a = (g b :: 'k::linorder)"
  shows "list_all2 R (sort_key f xs) (sort_key g ys)"
  using assms
proof (induction xs ys rule: list_all2_induct)
  case Nil
  then show ?case by simp
next
  case (Cons a xs b ys)
  then show ?case by (simp add: insort_related)
qed

lemma loopH:
  assumes "shuffled < length h" "h ! shuffled = Arr sh"
    and "selected < length h" "h ! selected = Arr sel"
    and "shuffled \<noteq> selected" "n0 \<le> shuffled" "n0 \<le> selected"
    and "list_all2 (\<lambda>r x. r < n0 \<and> h ! r = SellerObj x) sh ss"
    and "list_all2 (\<lambda>r x. r < length h \<and> h ! r = OfferObj x) sel os"
  shows "\<exists>h' sel'. sellersLoopH partId rnd numSellers shuffled selected i h = Inr h' \<and>
     take n0 h' = take n0 h \<and> length h \<le> length h' \<and>
     selected < length h' \<and> h' ! selected = Arr sel' \<and>
     list_all2 (\<lambda>r x. r < length h' \<and> h' ! r = OfferObj x) sel'
       (sellersLoop partId rnd numSellers ss i os)"
  using assms
proof (induction "nat (min numSellers (int (length sh)) - int i)" arbitrary: i h sel os)
  case 0
  have rd: "readObj h shuffled = Some (Arr sh)" "readObj h selected = Some (Arr sel)"
    using "0.prems" by (simp_all add: readObj_def)
  have len: "length sh = length ss"
    using "0.prems"(8) by (rule list_all2_lengthD)
  have stop: "\<not> int i < min numSellers (int (length sh))" using "0.hyps" by linarith
  have "sellersLoopH partId rnd numSellers shuffled selected i h = Inr h"
    using stop rd by (subst sellersLoopH.simps) auto
  moreover have "sellersLoop partId rnd numSellers ss i os = os"
    using stop len by (subst sellersLoop.simps) auto
  ultimately show ?case using "0.prems" by auto
next
  case (Suc k)
  have rd: "readObj h shuffled = Some (Arr sh)" "readObj h selected = Some (Arr sel)"
    using Suc.prems by (simp_all add: readObj_def)
  have len: "length sh = length ss"
    using Suc.prems(8) by (rule list_all2_lengthD)
  have go: "int i < min numSellers (int (length sh))" using Suc.hyps(2) by linarith
  then have i: "i < length sh" by simp
  have k: "k = nat (min numSellers (int (length sh)) - int (Suc i))"
    using Suc.hyps(2) by linarith
  from Suc.prems(8) i have s: "sh ! i < n0" "h ! (sh ! i) = SellerObj (ss ! i)"
    by (auto dest: list_all2_nthD)
  have n0: "n0 \<le> length h" using Suc.prems by linarith
  have rs: "readObj h (sh ! i) = Some (SellerObj (ss ! i))"
    using s n0 by (simp add: readObj_def)
  let ?x = "offerFor partId rnd i (ss ! i)"
  let ?h1 = "h @ [OfferObj ?x]"
  let ?h2 = "?h1[selected := Arr (sel @ [length h])]"
  have step: "sellersLoopH partId rnd numSellers shuffled selected i h =
      sellersLoopH partId rnd numSellers shuffled selected (Suc i) ?h2"
    using go rd rs by (subst sellersLoopH.simps) (simp add: alloc_def)
  have p1: "shuffled < length ?h2" using Suc.prems by simp
  have p2: "?h2 ! shuffled = Arr sh" using Suc.prems by (simp add: nth_append)
  have p3: "selected < length ?h2" using Suc.prems by simp
  have p4: "?h2 ! selected = Arr (sel @ [length h])" using Suc.prems by simp
  have p8: "list_all2 (\<lambda>r x. r < n0 \<and> ?h2 ! r = SellerObj x) sh ss"
  proof (rule list_all2_mono [OF Suc.prems(8)])
    fix r x assume "r < n0 \<and> h ! r = SellerObj x"
    then show "r < n0 \<and> ?h2 ! r = SellerObj x"
      using Suc.prems(7) n0 by (simp add: nth_append)
  qed
  have old: "list_all2 (\<lambda>r x. r < length ?h2 \<and> ?h2 ! r = OfferObj x) sel os"
  proof (rule list_all2_mono [OF Suc.prems(9)])
    fix r x assume a: "r < length h \<and> h ! r = OfferObj x"
    then have "r \<noteq> selected" using Suc.prems(4) by auto
    with a show "r < length ?h2 \<and> ?h2 ! r = OfferObj x"
      by (simp add: nth_append)
  qed
  have new: "length h < length ?h2 \<and> ?h2 ! length h = OfferObj ?x"
    using Suc.prems(3) by simp
  have p9: "list_all2 (\<lambda>r x. r < length ?h2 \<and> ?h2 ! r = OfferObj x)
      (sel @ [length h]) (os @ [?x])"
    using old new by (simp add: list_all2_appendI)
  from Suc.hyps(1) [OF k p1 p2 p3 p4 Suc.prems(5,6,7) p8 p9]
  obtain h' sel' where r:
    "sellersLoopH partId rnd numSellers shuffled selected (Suc i) ?h2 = Inr h'"
    "take n0 h' = take n0 ?h2" "length ?h2 \<le> length h'"
    "selected < length h'" "h' ! selected = Arr sel'"
    "list_all2 (\<lambda>r x. r < length h' \<and> h' ! r = OfferObj x) sel'
       (sellersLoop partId rnd numSellers ss (Suc i) (os @ [?x]))"
    by blast
  have t: "take n0 ?h2 = take n0 h" using Suc.prems(7) n0 by simp
  have l: "sellersLoop partId rnd numSellers ss i os =
      sellersLoop partId rnd numSellers ss (Suc i) (os @ [?x])"
    using go len by (subst sellersLoop.simps) simp
  from r t l step show ?case by auto
qed

lemma applyOrder_related:
  assumes "list_all2 R xs ys" "\<forall>i\<in>set ord. i < length xs"
  shows "list_all2 R (applyOrder ord xs) (applyOrder ord ys)"
  using assms
  by (auto simp: applyOrder_def list_all2_conv_all_nth)

lemma order_indices:
  assumes "mset ord = mset [0..<n]"
  shows "\<forall>i\<in>set ord. i < n"
proof -
  have "set ord = set [0..<n]" using assms by (rule mset_eq_setD)
  then show ?thesis by simp
qed

lemma generateH:
  assumes gs: "readObj h globalSellers = Some (Arr elems)"
    and pool: "holdsSellers h elems pool"
    and ord: "mset (order rnd) = mset [0..<length pool]"
  shows "\<exists>r h' res. generateSellersForPartH partId globalSellers rnd h = Inr (r, h') \<and>
     take (length h) h' = h \<and> length h \<le> r \<and>
     readObj h' r = Some (Arr res) \<and>
     holdsOffers h' res (generateSellersForPart partId pool rnd)"
proof -
  let ?n = "\<lfloor>countDraw rnd * 4\<rfloor> + 2"
  let ?selected = "length h"
  let ?shuffled = "Suc (length h)"
  let ?h1 = "h @ [Arr []]"
  let ?h2 = "?h1 @ [Arr elems]"
  let ?sh = "applyOrder (order rnd) elems"
  let ?ss = "applyOrder (order rnd) pool"
  let ?h3 = "?h2[?shuffled := Arr ?sh]"
  have g: "globalSellers < length h" "h ! globalSellers = Arr elems"
    using gs by (auto simp: readObj_def split: if_splits)
  have gs1: "readObj ?h1 globalSellers = Some (Arr elems)"
    using g by (simp add: readObj_def nth_append)
  have all: "list_all2 (\<lambda>r x. r < length h \<and> h ! r = SellerObj x) elems pool"
    using pool unfolding holdsSellers_def
    by (rule list_all2_mono) (auto simp: readObj_def split: if_splits)
  have len: "length elems = length pool" using all by (rule list_all2_lengthD)
  have idx: "\<forall>i\<in>set (order rnd). i < length elems"
    using order_indices [OF ord] len by simp
  have sh: "list_all2 (\<lambda>r x. r < length h \<and> h ! r = SellerObj x) ?sh ?ss"
    using all idx by (rule applyOrder_related)
  have sh3: "list_all2 (\<lambda>r x. r < length h \<and> ?h3 ! r = SellerObj x) ?sh ?ss"
  proof (rule list_all2_mono [OF sh])
    fix r x assume "r < length h \<and> h ! r = SellerObj x"
    then show "r < length h \<and> ?h3 ! r = SellerObj x" by (simp add: nth_append)
  qed
  have "\<exists>h' sel'. sellersLoopH partId rnd ?n ?shuffled ?selected 0 ?h3 = Inr h' \<and>
     take (length h) h' = take (length h) ?h3 \<and> length ?h3 \<le> length h' \<and>
     ?selected < length h' \<and> h' ! ?selected = Arr sel' \<and>
     list_all2 (\<lambda>r x. r < length h' \<and> h' ! r = OfferObj x) sel'
       (sellersLoop partId rnd ?n ?ss 0 [])"
    by (rule loopH [where sh = ?sh and sel = "[]"]) (use sh3 in \<open>simp_all add: nth_append\<close>)
  then obtain h4 sel' where l:
    "sellersLoopH partId rnd ?n ?shuffled ?selected 0 ?h3 = Inr h4"
    "take (length h) h4 = take (length h) ?h3" "length ?h3 \<le> length h4"
    "?selected < length h4" "h4 ! ?selected = Arr sel'"
    "list_all2 (\<lambda>r x. r < length h4 \<and> h4 ! r = OfferObj x) sel'
       (sellersLoop partId rnd ?n ?ss 0 [])"
    by blast
  let ?res = "sort_key (priceAt h4) sel'"
  let ?h5 = "h4[?selected := Arr ?res]"
  have rd4: "readObj h4 ?selected = Some (Arr sel')"
    using l(4,5) by (simp add: readObj_def)
  have run: "generateSellersForPartH partId globalSellers rnd h = Inr (?selected, ?h5)"
    using gs1 l(1) rd4
    by (simp add: generateSellersForPartH_def alloc_def Let_def)
  have frame: "take (length h) ?h5 = h"
    using l(2) by simp
  have rd5: "readObj ?h5 ?selected = Some (Arr ?res)"
    using l(4) by (simp add: readObj_def)
  have prices: "\<forall>r x. (r < length h4 \<and> h4 ! r = OfferObj x) \<longrightarrow> priceAt h4 r = price x"
    by (simp add: priceAt_def readObj_def)
  have sorted4: "list_all2 (\<lambda>r x. r < length h4 \<and> h4 ! r = OfferObj x) ?res
      (sort_key price (sellersLoop partId rnd ?n ?ss 0 []))"
    using l(6) prices by (rule sort_related)
  have "list_all2 (\<lambda>r x. readObj ?h5 r = Some (OfferObj x)) ?res
      (sort_key price (sellersLoop partId rnd ?n ?ss 0 []))"
  proof (rule list_all2_mono [OF sorted4])
    fix r x assume a: "r < length h4 \<and> h4 ! r = OfferObj x"
    then have "r \<noteq> ?selected" using l(5) by auto
    with a show "readObj ?h5 r = Some (OfferObj x)" by (simp add: readObj_def)
  qed
  then have "holdsOffers ?h5 ?res (generateSellersForPart partId pool rnd)"
    by (simp add: holdsOffers_def generateSellersForPart_def Let_def)
  with run frame rd5 show ?thesis by blast
qed

lemma sampleStore_pool:
  "readObj sampleStore 3 = Some (Arr [0, 1, 2]) \<and> holdsSellers sampleStore [0, 1, 2] samplePool"
  by (simp add: sampleStore_def readObj_def holdsSellers_def samplePool_def)

lemma sample_generateH:
  "generateSellersForPartH samplePartId 3 sampleDraws sampleStore =
     Inr (4, sampleStore @
       [Arr [7, 8, 6], Arr [2, 0, 1],
        OfferObj \<lparr>o_name = js ''Ege Oto'', o_location = js ''Izmir'', price = 348, stock = 10,
          o_rating = 4.9, o_phone = js ''+90 232 000 00 03'', o_email = js ''ege@example.com''\<rparr>,
        OfferObj \<lparr>o_name = js ''Oto Merkez'', o_location = js ''Istanbul'', price = 252, stock = 10,
          o_rating = 4.5, o_phone = js ''+90 212 000 00 01'', o_email = js ''merkez@example.com''\<rparr>,
        OfferObj \<lparr>o_name = js ''Ankara Yedek'', o_location = js ''Ankara'', price = 300, stock = 10,
          o_rating = 4.2, o_phone = js ''+90 312 000 00 02'', o_email = js ''yedek@example.com''\<rparr>])"
  by (simp add: generateSellersForPartH_def sellersLoopH.simps alloc_def readObj_def priceAt_def
      sampleStore_def sampleDraws_def samplePartId_def sellerA_def sellerB_def sellerC_def
      offer_defs)

section \<open>The claim about the pool\<close>

text \<open>
  Claim C10. A call on a pool in the store (an array of seller objects) returns, and
  leaves every cell that existed before the call as it was: the pool array has the
  same elements in the same order, and every seller object the same fields. The array
  returned is a new one, and it holds the offers the function on values computes.
\<close>

theorem C10_pool_unchanged:
  assumes "readObj h globalSellers = Some (Arr elems)"
    and "holdsSellers h elems pool"
    and "mset (order rnd) = mset [0..<length pool]"
  shows "\<exists>r h' res. generateSellersForPartH partId globalSellers rnd h = Inr (r, h') \<and>
     take (length h) h' = h \<and>
     readObj h' globalSellers = Some (Arr elems) \<and> holdsSellers h' elems pool \<and>
     length h \<le> r \<and> readObj h' r = Some (Arr res) \<and>
     holdsOffers h' res (generateSellersForPart partId pool rnd)"
proof -
  from generateH [OF assms] obtain r h' res where
    g: "generateSellersForPartH partId globalSellers rnd h = Inr (r, h')"
       "take (length h) h' = h" "length h \<le> r" "readObj h' r = Some (Arr res)"
       "holdsOffers h' res (generateSellersForPart partId pool rnd)"
    by blast
  have same: "readObj h' a = readObj h a" if "a < length h" for a
  proof -
    have "h' ! a = take (length h) h' ! a" using that by simp
    moreover have "length h \<le> length h'"
      using g(3,4) by (auto simp: readObj_def split: if_splits)
    ultimately show ?thesis using that g(2) by (simp add: readObj_def)
  qed
  have "globalSellers < length h"
    using assms(1) by (auto simp: readObj_def split: if_splits)
  then have a: "readObj h' globalSellers = Some (Arr elems)"
    using same assms(1) by simp
  have b: "holdsSellers h' elems pool"
    using assms(2) unfolding holdsSellers_def
  proof (rule list_all2_mono)
    fix r x assume "readObj h r = Some (SellerObj x)"
    moreover from this have "r < length h" by (auto simp: readObj_def split: if_splits)
    ultimately show "readObj h' r = Some (SellerObj x)" using same by simp
  qed
  from g a b show ?thesis by blast
qed

theorem C10_pool_unchanged_witness:
  "readObj sampleStore 3 = Some (Arr [0, 1, 2]) \<and>
   holdsSellers sampleStore [0, 1, 2] samplePool \<and>
   mset (order sampleDraws) = mset [0..<length samplePool] \<and>
   fst (projr (generateSellersForPartH samplePartId 3 sampleDraws sampleStore)) = 4 \<and>
   take (length sampleStore)
     (snd (projr (generateSellersForPartH samplePartId 3 sampleDraws sampleStore))) = sampleStore \<and>
   readObj (snd (projr (generateSellersForPartH samplePartId 3 sampleDraws sampleStore))) 3 =
     Some (Arr [0, 1, 2]) \<and>
   readObj (snd (projr (generateSellersForPartH samplePartId 3 sampleDraws sampleStore))) 4 =
     Some (Arr [7, 8, 6])"
proof -
  have p: "readObj sampleStore 3 = Some (Arr [0, 1, 2])"
    and q: "holdsSellers sampleStore [0, 1, 2] samplePool"
    and o: "mset (order sampleDraws) = mset [0..<length samplePool]"
    using sampleStore_pool sample_draws_ok by simp_all
  from C10_pool_unchanged [OF p q o, of samplePartId]
  obtain r h' where
    "generateSellersForPartH samplePartId 3 sampleDraws sampleStore = Inr (r, h')"
    "take (length sampleStore) h' = sampleStore"
    "readObj h' 3 = Some (Arr [0, 1, 2])"
    by blast
  then have "take (length sampleStore)
     (snd (projr (generateSellersForPartH samplePartId 3 sampleDraws sampleStore))) = sampleStore"
    "readObj (snd (projr (generateSellersForPartH samplePartId 3 sampleDraws sampleStore))) 3 =
     Some (Arr [0, 1, 2])"
    by simp_all
  moreover have "fst (projr (generateSellersForPartH samplePartId 3 sampleDraws sampleStore)) = 4"
    "readObj (snd (projr (generateSellersForPartH samplePartId 3 sampleDraws sampleStore))) 4 =
     Some (Arr [7, 8, 6])"
    by (simp_all add: sample_generateH) (simp add: readObj_def sampleStore_def)
  ultimately show ?thesis using p q o by blast
qed

end
